theory Spec2Isabelle
  imports Main "HOL-Library.Word"
begin

section \<open>JavaScript strings\<close>

text \<open>
  A JavaScript string is a sequence of UTF-16 code units. A character literal of the
  source that is plain ASCII is written \<open>ch\<close>, a string literal \<open>js\<close>.
\<close>

type_synonym jschar = "16 word"
type_synonym jsstring = "jschar list"

definition ch :: "char \<Rightarrow> jschar" where
  "ch c = of_nat (of_char c)"

definition js :: "string \<Rightarrow> jsstring" where
  "js s = map ch s"

text \<open>
  \<open>String.prototype.trim\<close> removes the code units of WhiteSpace and LineTerminator
  from both ends: TAB, LF, VT, FF, CR, SP, NBSP, U+1680, U+2000 to U+200A, U+2028,
  U+2029, U+202F, U+205F, U+3000 and U+FEFF.
\<close>

definition is_js_space :: "jschar \<Rightarrow> bool" where
  "is_js_space c \<longleftrightarrow>
     (0x09 \<le> c \<and> c \<le> 0x0D) \<or> c = 0x20 \<or> c = 0xA0 \<or> c = 0x1680
     \<or> (0x2000 \<le> c \<and> c \<le> 0x200A) \<or> c = 0x2028 \<or> c = 0x2029 \<or> c = 0x202F
     \<or> c = 0x205F \<or> c = 0x3000 \<or> c = 0xFEFF"

definition trim :: "jsstring \<Rightarrow> jsstring" where
  "trim s = rev (dropWhile is_js_space (rev (dropWhile is_js_space s)))"

fun strip_prefix :: "jsstring \<Rightarrow> jsstring \<Rightarrow> jsstring option" where
  "strip_prefix [] cs = Some cs"
| "strip_prefix (p # ps) [] = None"
| "strip_prefix (p # ps) (c # cs) = (if p = c then strip_prefix ps cs else None)"

definition is_digit :: "jschar \<Rightarrow> bool" where
  "is_digit c \<longleftrightarrow> 0x30 \<le> c \<and> c \<le> 0x39"

definition digit_val :: "jschar \<Rightarrow> nat" where
  "digit_val c = unat c - 48"

definition digit_char :: "nat \<Rightarrow> jschar" where
  "digit_char d = of_nat (48 + d)"

text \<open>The value of a run of decimal digits, most significant first.\<close>

definition digits_val :: "jsstring \<Rightarrow> nat" where
  "digits_val ds = foldl (\<lambda>a c. 10 * a + digit_val c) 0 ds"

text \<open>
  \<open>Number::toString\<close> on an integer: its decimal digits, with a minus sign when
  negative. (JavaScript switches to exponent notation from \<open>10^21\<close> on, far above any
  timestamp or status code.)
\<close>

fun nat_digits :: "nat \<Rightarrow> jsstring" where
  "nat_digits n = (if n < 10 then [digit_char n] else nat_digits (n div 10) @ [digit_char (n mod 10)])"

declare nat_digits.simps [simp del]

definition int_to_string :: "int \<Rightarrow> jsstring" where
  "int_to_string i = (if i < 0 then ch CHR ''-'' # nat_digits (nat (- i)) else nat_digits (nat i))"

section \<open>Errors (the error classes of the types module)\<close>

text \<open>
  \<open>AppError\<close> carries its code; \<open>ValidationError\<close>, \<open>AuthenticationError\<close>,
  \<open>NetworkError\<close> and \<open>RedisError\<close> are its subclasses. \<open>JsError\<close> is any other
  thrown value: a TypeError or RangeError of the runtime, or the error of a library (the Redis
  client, the mail transport, the file system, \<open>fetch\<close>).
\<close>

datatype error =
    AppError string
  | ValidationError
  | AuthenticationError
  | NetworkError
  | RedisError
  | JsError

text \<open>\<open>error instanceof AppError\<close>\<close>

fun is_AppError :: "error \<Rightarrow> bool" where
  "is_AppError JsError = False"
| "is_AppError _ = True"

text \<open>
  Which operations of an outside service fail is given by a predicate on the
  operations: none of them, or exactly one.
\<close>

definition no_faults :: "'op \<Rightarrow> bool" where
  "no_faults op = False"

definition only_fails :: "'op \<Rightarrow> 'op \<Rightarrow> bool" where
  "only_fails bad op \<longleftrightarrow> op = bad"

section \<open>JSON\<close>

text \<open>
  The values of JavaScript that the program handles as data: those \<open>JSON.parse\<close>
  produces, and the numbers \<open>Infinity\<close>, \<open>-Infinity\<close> and \<open>NaN\<close>, which no JSON
  text denotes. \<open>JNum m e\<close> is the number written \<open>m * 10^e\<close>. An object lists its
  own properties in the order in which it enumerates them.
\<close>

datatype json =
    JNull
  | JBool bool
  | JNum int int
  | JPosInf
  | JNegInf
  | JNaN
  | JStr jsstring
  | JArr "json list"
  | JObj "(jsstring \<times> json) list"

subsection \<open>Properties\<close>

text \<open>
  An ordinary object enumerates the keys that are array indices (canonical decimal
  numerals below \<open>2^32 - 1\<close>) first, in ascending order, and then the other keys in
  the order of their creation. \<open>set_property\<close> is CreateDataProperty: the value of
  an existing key is replaced in place, a new key takes its place in that order.
\<close>

definition is_array_index :: "jsstring \<Rightarrow> bool" where
  "is_array_index k \<longleftrightarrow>
     k \<noteq> [] \<and> list_all is_digit k \<and> (hd k \<noteq> 0x30 \<or> length k = 1) \<and> digits_val k < 4294967295"

definition before_index :: "jsstring \<Rightarrow> jsstring \<times> 'v \<Rightarrow> bool" where
  "before_index k p \<longleftrightarrow> is_array_index (fst p) \<and> digits_val (fst p) < digits_val k"

definition set_property :: "(jsstring \<times> 'v) list \<Rightarrow> jsstring \<Rightarrow> 'v \<Rightarrow> (jsstring \<times> 'v) list" where
  "set_property ms k v =
     (if k \<in> set (map fst ms) then map (\<lambda>p. if fst p = k then (k, v) else p) ms
      else if is_array_index k then
        takeWhile (before_index k) ms @ (k, v) # dropWhile (before_index k) ms
      else ms @ [(k, v)])"

text \<open>
  Property access \<open>v.key\<close> for the keys the program reads (none of them is a
  property of a prototype): \<open>None\<close> is \<open>undefined\<close>. Reading a property of
  \<open>null\<close> throws a TypeError, which the callers test before they read.
\<close>

fun get_field :: "json \<Rightarrow> jsstring \<Rightarrow> json option" where
  "get_field (JObj ms) k = map_of ms k"
| "get_field _ k = None"

subsection \<open>\<open>JSON.parse\<close>\<close>

definition is_json_ws :: "jschar \<Rightarrow> bool" where
  "is_json_ws c \<longleftrightarrow> c = 0x20 \<or> c = 0x09 \<or> c = 0x0A \<or> c = 0x0D"

definition skip_ws :: "jsstring \<Rightarrow> jsstring" where
  "skip_ws cs = dropWhile is_json_ws cs"

definition hex_val :: "jschar \<Rightarrow> nat option" where
  "hex_val c =
     (if 0x30 \<le> c \<and> c \<le> 0x39 then Some (unat c - 48)
      else if 0x61 \<le> c \<and> c \<le> 0x66 then Some (unat c - 87)
      else if 0x41 \<le> c \<and> c \<le> 0x46 then Some (unat c - 55)
      else None)"

definition hex4 :: "jschar \<Rightarrow> jschar \<Rightarrow> jschar \<Rightarrow> jschar \<Rightarrow> jschar option" where
  "hex4 a b c d =
     (case (hex_val a, hex_val b, hex_val c, hex_val d) of
        (Some x, Some y, Some z, Some w) \<Rightarrow> Some (of_nat (((x * 16 + y) * 16 + z) * 16 + w))
      | _ \<Rightarrow> None)"

text \<open>The character an escape \<open>\\c\<close> stands for.\<close>

definition unescape :: "jschar \<Rightarrow> jschar option" where
  "unescape c =
     (if c = 0x22 then Some 0x22
      else if c = 0x5C then Some 0x5C
      else if c = ch CHR ''/'' then Some (ch CHR ''/'')
      else if c = ch CHR ''b'' then Some 0x08
      else if c = ch CHR ''f'' then Some 0x0C
      else if c = ch CHR ''n'' then Some 0x0A
      else if c = ch CHR ''r'' then Some 0x0D
      else if c = ch CHR ''t'' then Some 0x09
      else None)"

definition cons_char :: "jschar \<Rightarrow> (jsstring \<times> jsstring) option \<Rightarrow> (jsstring \<times> jsstring) option" where
  "cons_char c r = (case r of None \<Rightarrow> None | Some (s, rest) \<Rightarrow> Some (c # s, rest))"

text \<open>
  The characters of a string literal after its opening quote, up to the closing quote:
  the decoded string and the text after the closing quote.
\<close>

fun parse_chars :: "jsstring \<Rightarrow> (jsstring \<times> jsstring) option" where
  "parse_chars [] = None"
| "parse_chars (c # cs) =
     (if c = 0x22 then Some ([], cs)
      else if c = 0x5C then
        (case cs of
           [] \<Rightarrow> None
         | e # r \<Rightarrow>
             if e = ch CHR ''u'' then
               (case r of
                  h1 # h2 # h3 # h4 # r' \<Rightarrow>
                    (case hex4 h1 h2 h3 h4 of
                       None \<Rightarrow> None
                     | Some u \<Rightarrow> cons_char u (parse_chars r'))
                | _ \<Rightarrow> None)
             else
               (case unescape e of
                  None \<Rightarrow> None
                | Some u \<Rightarrow> cons_char u (parse_chars r)))
      else if c < 0x20 then None
      else cons_char c (parse_chars cs))"

text \<open>
  A number literal: \<open>-? (0 | [1-9][0-9]*) (. [0-9]+)? ([eE] [+-]? [0-9]+)?\<close>.
\<close>

definition parse_int_part :: "jsstring \<Rightarrow> (jsstring \<times> jsstring) option" where
  "parse_int_part cs =
     (case cs of
        [] \<Rightarrow> None
      | c # r \<Rightarrow>
          if c = 0x30 then Some ([c], r)
          else if is_digit c then Some (takeWhile is_digit cs, dropWhile is_digit cs)
          else None)"

definition parse_frac_part :: "jsstring \<Rightarrow> (jsstring \<times> jsstring) option" where
  "parse_frac_part cs =
     (case cs of
        c # r \<Rightarrow>
          if c = ch CHR ''.'' then
            (if takeWhile is_digit r = [] then None
             else Some (takeWhile is_digit r, dropWhile is_digit r))
          else Some ([], cs)
      | [] \<Rightarrow> Some ([], cs))"

definition parse_exp_digits :: "bool \<Rightarrow> jsstring \<Rightarrow> (int \<times> jsstring) option" where
  "parse_exp_digits neg cs =
     (if takeWhile is_digit cs = [] then None
      else Some ((if neg then - int (digits_val (takeWhile is_digit cs))
                  else int (digits_val (takeWhile is_digit cs))),
                 dropWhile is_digit cs))"

definition parse_exp_part :: "jsstring \<Rightarrow> (int \<times> jsstring) option" where
  "parse_exp_part cs =
     (case cs of
        c # r \<Rightarrow>
          if c = ch CHR ''e'' \<or> c = ch CHR ''E'' then
            (case r of
               s # r' \<Rightarrow>
                 if s = ch CHR ''-'' then parse_exp_digits True r'
                 else if s = ch CHR ''+'' then parse_exp_digits False r'
                 else parse_exp_digits False r
             | [] \<Rightarrow> None)
          else Some (0, cs)
      | [] \<Rightarrow> Some (0, cs))"

definition parse_unsigned :: "bool \<Rightarrow> jsstring \<Rightarrow> (json \<times> jsstring) option" where
  "parse_unsigned neg cs =
     (case parse_int_part cs of
        None \<Rightarrow> None
      | Some (ip, cs1) \<Rightarrow>
          (case parse_frac_part cs1 of
             None \<Rightarrow> None
           | Some (fp, cs2) \<Rightarrow>
               (case parse_exp_part cs2 of
                  None \<Rightarrow> None
                | Some (ex, cs3) \<Rightarrow>
                    Some (JNum (if neg then - int (digits_val (ip @ fp)) else int (digits_val (ip @ fp)))
                               (ex - int (length fp)), cs3))))"

definition parse_number :: "jsstring \<Rightarrow> (json \<times> jsstring) option" where
  "parse_number cs =
     (case cs of
        c # r \<Rightarrow> if c = ch CHR ''-'' then parse_unsigned True r else parse_unsigned False cs
      | [] \<Rightarrow> None)"

text \<open>
  Values nest, so the parser of values recurses on a fuel argument; \<open>JSON_parse\<close>
  supplies more fuel than any text can use (lemma \<open>parse_value_fuel\<close>).
\<close>

datatype 'a parsed = Reject | OutOfFuel | Accept 'a jsstring

definition of_option :: "('a \<times> jsstring) option \<Rightarrow> 'a parsed" where
  "of_option r = (case r of None \<Rightarrow> Reject | Some (v, rest) \<Rightarrow> Accept v rest)"

text \<open>A string, \<open>true\<close>, \<open>false\<close>, \<open>null\<close> or a number, whose first character is \<open>c\<close>.\<close>

definition parse_scalar :: "jschar \<Rightarrow> jsstring \<Rightarrow> json parsed" where
  "parse_scalar c r =
     (if c = 0x22 then of_option (map_option (\<lambda>(s, rest). (JStr s, rest)) (parse_chars r))
      else if c = ch CHR ''t'' then
        of_option (map_option (\<lambda>rest. (JBool True, rest)) (strip_prefix (js ''rue'') r))
      else if c = ch CHR ''f'' then
        of_option (map_option (\<lambda>rest. (JBool False, rest)) (strip_prefix (js ''alse'') r))
      else if c = ch CHR ''n'' then
        of_option (map_option (\<lambda>rest. (JNull, rest)) (strip_prefix (js ''ull'') r))
      else of_option (parse_number (c # r)))"

fun parse_value :: "nat \<Rightarrow> jsstring \<Rightarrow> json parsed"
  and parse_elems :: "nat \<Rightarrow> jsstring \<Rightarrow> json list \<Rightarrow> json parsed"
  and parse_members :: "nat \<Rightarrow> jsstring \<Rightarrow> (jsstring \<times> json) list \<Rightarrow> json parsed"
where
  "parse_value 0 cs = OutOfFuel"
| "parse_value (Suc n) cs =
     (case skip_ws cs of
        [] \<Rightarrow> Reject
      | c # r \<Rightarrow>
          if c = ch CHR ''{'' then
            (case skip_ws r of
               [] \<Rightarrow> Reject
             | d # r' \<Rightarrow> if d = ch CHR ''}'' then Accept (JObj []) r' else parse_members n r [])
          else if c = ch CHR ''['' then
            (case skip_ws r of
               [] \<Rightarrow> Reject
             | d # r' \<Rightarrow> if d = ch CHR '']'' then Accept (JArr []) r' else parse_elems n r [])
          else parse_scalar c r)"
| "parse_elems 0 cs acc = OutOfFuel"
| "parse_elems (Suc n) cs acc =
     (case parse_value n cs of
        Reject \<Rightarrow> Reject
      | OutOfFuel \<Rightarrow> OutOfFuel
      | Accept v r \<Rightarrow>
          (case skip_ws r of
             [] \<Rightarrow> Reject
           | d # r' \<Rightarrow>
               if d = ch CHR '','' then parse_elems n r' (acc @ [v])
               else if d = ch CHR '']'' then Accept (JArr (acc @ [v])) r'
               else Reject))"
| "parse_members 0 cs acc = OutOfFuel"
| "parse_members (Suc n) cs acc =
     (case skip_ws cs of
        [] \<Rightarrow> Reject
      | q # r \<Rightarrow>
          if q = 0x22 then
            (case parse_chars r of
               None \<Rightarrow> Reject
             | Some (k, r1) \<Rightarrow>
                 (case skip_ws r1 of
                    [] \<Rightarrow> Reject
                  | colon # r2 \<Rightarrow>
                      if colon = ch CHR '':'' then
                        (case parse_value n r2 of
                           Reject \<Rightarrow> Reject
                         | OutOfFuel \<Rightarrow> OutOfFuel
                         | Accept v r3 \<Rightarrow>
                             (case skip_ws r3 of
                                [] \<Rightarrow> Reject
                              | d # r4 \<Rightarrow>
                                  if d = ch CHR '','' then parse_members n r4 (set_property acc k v)
                                  else if d = ch CHR ''}'' then Accept (JObj (set_property acc k v)) r4
                                  else Reject))
                      else Reject))
          else Reject)"

declare parse_value.simps [simp del] parse_elems.simps [simp del] parse_members.simps [simp del]

text \<open>
  \<open>JSON.parse(text)\<close>: \<open>None\<close> is the SyntaxError it throws. The whole text
  must be one value between optional white space.
\<close>

definition JSON_parse :: "jsstring \<Rightarrow> json option" where
  "JSON_parse s =
     (case parse_value (2 * length s + 1) s of
        Accept v rest \<Rightarrow> if skip_ws rest = [] then Some v else None
      | _ \<Rightarrow> None)"

section \<open>Numbers\<close>

text \<open>
  A number of JavaScript is a double, \<open>Infinity\<close>, \<open>-Infinity\<close> or \<open>NaN\<close>. A
  decimal of at most 15 significant digits and of a magnitude between \<open>10^-300\<close>
  and \<open>10^300\<close>, and likewise an integer of a magnitude up to \<open>2^53\<close>, is the
  shortest decimal of the double nearest to it: two such decimals denote different
  doubles, \<open>Number::toString\<close> prints the double as this decimal, and the double
  compares with an integer up to \<open>2^53\<close> as the decimal does. The model identifies
  the double with the decimal: \<open>Fin m e\<close> is \<open>m * 10^e\<close>, and zero stands for both
  zeros, which the program does not tell apart.
\<close>

datatype jsnum = Fin int int | PosInf | NegInf | NaN

text \<open>
  What the model leaves to the JavaScript runtime: the number that a numeral outside
  this range denotes (its rounding to a double), the conversion of a string to a
  number (ToNumber), and whether \<open>Date.parse\<close> reads a string as a date, which
  outside the ISO format is the implementation's choice. Every theorem holds for
  every runtime.
\<close>

record runtime =
  RoundNumber :: "int \<Rightarrow> int \<Rightarrow> jsnum"
  StringToNumber :: "jsstring \<Rightarrow> jsnum"
  DateParse :: "jsstring \<Rightarrow> bool"

text \<open>The digits of a decimal without its trailing zeros.\<close>

function strip_zeros :: "nat \<Rightarrow> int \<Rightarrow> nat \<times> int" where
  "strip_zeros s e = (if s \<noteq> 0 \<and> s mod 10 = 0 then strip_zeros (s div 10) (e + 1) else (s, e))"
  by pat_completeness auto
termination
  by (relation "measure (\<lambda>(s, e). s)") auto

declare strip_zeros.simps [simp del]

definition exact_decimal :: "int \<Rightarrow> int \<Rightarrow> bool" where
  "exact_decimal m e \<longleftrightarrow>
     (case strip_zeros (nat \<bar>m\<bar>) e of
        (s, e') \<Rightarrow>
          s = 0
          \<or> (0 \<le> e' \<and> int s * 10 ^ nat e' \<le> 9007199254740992)
          \<or> (length (nat_digits s) \<le> 15
              \<and> - 300 < int (length (nat_digits s)) + e'
              \<and> int (length (nat_digits s)) + e' \<le> 300))"

text \<open>The number that the numeral \<open>m * 10^e\<close> denotes.\<close>

definition number_of :: "runtime \<Rightarrow> int \<Rightarrow> int \<Rightarrow> jsnum" where
  "number_of rt m e = (if exact_decimal m e then Fin m e else RoundNumber rt m e)"

text \<open>
  The comparisons \<open>m * 10^e < c\<close> and \<open>c < m * 10^e\<close> with an integer, and those
  of a number with an integer; a comparison with \<open>NaN\<close> is false.
\<close>

definition dec_less_int :: "int \<Rightarrow> int \<Rightarrow> int \<Rightarrow> bool" where
  "dec_less_int m e c = (if 0 \<le> e then m * 10 ^ nat e < c else m < c * 10 ^ nat (- e))"

definition dec_greater_int :: "int \<Rightarrow> int \<Rightarrow> int \<Rightarrow> bool" where
  "dec_greater_int m e c = (if 0 \<le> e then c < m * 10 ^ nat e else c * 10 ^ nat (- e) < m)"


fun int_less_num :: "int \<Rightarrow> jsnum \<Rightarrow> bool" where
  "int_less_num c (Fin m e) = dec_greater_int m e c"
| "int_less_num c PosInf = True"
| "int_less_num c NegInf = False"
| "int_less_num c NaN = False"

text \<open>ToBoolean of a number: false for zero and \<open>NaN\<close>.\<close>

fun num_truthy :: "jsnum \<Rightarrow> bool" where
  "num_truthy (Fin m e) = (m \<noteq> 0)"
| "num_truthy NaN = False"
| "num_truthy PosInf = True"
| "num_truthy NegInf = True"

text \<open>
  A time value is a finite number of milliseconds of a magnitude up to
  \<open>8.64 * 10^15\<close>. \<open>new Date(x)\<close> holds an invalid date for every other number
  \<open>x\<close>, and \<open>toISOString\<close> throws a RangeError on an invalid date.
\<close>

definition MAX_TIME :: int where
  "MAX_TIME = 8640000000000000"

fun is_time_value :: "jsnum \<Rightarrow> bool" where
  "is_time_value (Fin m e) \<longleftrightarrow> \<not> dec_less_int m e (- MAX_TIME) \<and> \<not> dec_greater_int m e MAX_TIME"
| "is_time_value PosInf = False"
| "is_time_value NegInf = False"
| "is_time_value NaN = False"

text \<open>
  \<open>Number::toString\<close>: with \<open>s\<close> the digits of the number without trailing
  zeros, \<open>k\<close> their count and \<open>n\<close> the position of the decimal point, the number
  is printed plainly for \<open>-6 < n \<le> 21\<close> and in exponent notation otherwise.
\<close>

definition positive_to_string :: "nat \<Rightarrow> int \<Rightarrow> jsstring" where
  "positive_to_string s e =
     (let ds = nat_digits s; k = int (length ds); n = k + e in
      if k \<le> n \<and> n \<le> 21 then ds @ replicate (nat (n - k)) (ch CHR ''0'')
      else if 0 < n \<and> n \<le> 21 then take (nat n) ds @ ch CHR ''.'' # drop (nat n) ds
      else if - 6 < n \<and> n \<le> 0 then
        ch CHR ''0'' # ch CHR ''.'' # replicate (nat (- n)) (ch CHR ''0'') @ ds
      else
        (if k = 1 then ds else take 1 ds @ ch CHR ''.'' # drop 1 ds)
        @ ch CHR ''e'' # (if n - 1 < 0 then ch CHR ''-'' else ch CHR ''+'')
        # nat_digits (nat \<bar>n - 1\<bar>))"

definition number_to_string :: "int \<Rightarrow> int \<Rightarrow> jsstring" where
  "number_to_string m e =
     (if m = 0 then [ch CHR ''0'']
      else (if m < 0 then [ch CHR ''-''] else [])
           @ (case strip_zeros (nat \<bar>m\<bar>) e of (s, e') \<Rightarrow> positive_to_string s e'))"

fun jsnum_to_string :: "jsnum \<Rightarrow> jsstring" where
  "jsnum_to_string (Fin m e) = number_to_string m e"
| "jsnum_to_string PosInf = js ''Infinity''"
| "jsnum_to_string NegInf = js ''-Infinity''"
| "jsnum_to_string NaN = js ''NaN''"

subsection \<open>\<open>JSON.stringify\<close>\<close>

text \<open>
  QuoteJSONString: the two-character escapes, \<open>\\uXXXX\<close> (lower-case hex) for the
  other control characters and for a surrogate that is not part of a pair, every
  other code unit as it is.
\<close>

definition hex_char :: "nat \<Rightarrow> jschar" where
  "hex_char d = (if d < 10 then of_nat (48 + d) else of_nat (87 + d))"

definition unicode_escape :: "jschar \<Rightarrow> jsstring" where
  "unicode_escape c =
     [0x5C, ch CHR ''u'',
      hex_char (unat c div 4096), hex_char (unat c div 256 mod 16),
      hex_char (unat c div 16 mod 16), hex_char (unat c mod 16)]"

definition short_escape :: "jschar \<Rightarrow> jschar option" where
  "short_escape c =
     (if c = 0x08 then Some (ch CHR ''b'')
      else if c = 0x09 then Some (ch CHR ''t'')
      else if c = 0x0A then Some (ch CHR ''n'')
      else if c = 0x0C then Some (ch CHR ''f'')
      else if c = 0x0D then Some (ch CHR ''r'')
      else if c = 0x22 then Some 0x22
      else if c = 0x5C then Some 0x5C
      else None)"

definition is_high_surrogate :: "jschar \<Rightarrow> bool" where
  "is_high_surrogate c \<longleftrightarrow> 0xD800 \<le> c \<and> c \<le> 0xDBFF"

definition is_low_surrogate :: "jschar \<Rightarrow> bool" where
  "is_low_surrogate c \<longleftrightarrow> 0xDC00 \<le> c \<and> c \<le> 0xDFFF"

fun quote_chars :: "jsstring \<Rightarrow> jsstring" where
  "quote_chars [] = []"
| "quote_chars (c # cs) =
     (case short_escape c of
        Some e \<Rightarrow> 0x5C # e # quote_chars cs
      | None \<Rightarrow>
          if c < 0x20 then unicode_escape c @ quote_chars cs
          else if is_high_surrogate c then
            (case cs of
               [] \<Rightarrow> unicode_escape c
             | d # ds \<Rightarrow>
                 if is_low_surrogate d then c # d # quote_chars ds
                 else unicode_escape c @ quote_chars cs)
          else if is_low_surrogate c then unicode_escape c @ quote_chars cs
          else c # quote_chars cs)"

definition JSON_quote :: "jsstring \<Rightarrow> jsstring" where
  "JSON_quote s = 0x22 # quote_chars s @ [0x22]"

text \<open>
  \<open>JSON.stringify(value)\<close>: a number that is not finite is written \<open>null\<close>, the
  elements of an array and the properties of an object are written in their order,
  without white space. (No value of the model is \<open>undefined\<close> or a function, and
  none has a \<open>toJSON\<close> method.)
\<close>

fun comma_join :: "jsstring list \<Rightarrow> jsstring" where
  "comma_join [] = []"
| "comma_join [x] = x"
| "comma_join (x # y # ys) = x @ ch CHR '','' # comma_join (y # ys)"

definition member_text :: "jsstring \<times> jsstring \<Rightarrow> jsstring" where
  "member_text p = JSON_quote (fst p) @ ch CHR '':'' # snd p"

primrec JSON_stringify :: "runtime \<Rightarrow> json \<Rightarrow> jsstring" where
  "JSON_stringify rt JNull = js ''null''"
| "JSON_stringify rt (JBool b) = (if b then js ''true'' else js ''false'')"
| "JSON_stringify rt (JNum m e) =
     (case number_of rt m e of Fin a b \<Rightarrow> number_to_string a b | _ \<Rightarrow> js ''null'')"
| "JSON_stringify rt JPosInf = js ''null''"
| "JSON_stringify rt JNegInf = js ''null''"
| "JSON_stringify rt JNaN = js ''null''"
| "JSON_stringify rt (JStr s) = JSON_quote s"
| "JSON_stringify rt (JArr xs) =
     ch CHR ''['' # comma_join (map (JSON_stringify rt) xs) @ [ch CHR '']'']"
| "JSON_stringify rt (JObj ms) =
     ch CHR ''{'' # comma_join (map member_text (map (map_prod id (JSON_stringify rt)) ms))
       @ [ch CHR ''}'']"

subsection \<open>Reading back\<close>

text \<open>
  The value that \<open>JSON.parse\<close> reads from the text that \<open>JSON.stringify\<close>
  writes for a value: \<open>null\<close> for a number that is not finite, a finite number in
  the way \<open>Number::toString\<close> writes it, an object with its properties set one
  after the other (theorem \<open>JSON_parse_stringify\<close>).
\<close>

definition printed_literal :: "int \<Rightarrow> int \<Rightarrow> json" where
  "printed_literal m e =
     (if m = 0 then JNum 0 0
      else case strip_zeros (nat \<bar>m\<bar>) e of
        (s, e') \<Rightarrow>
          if 0 \<le> e' \<and> int (length (nat_digits s)) + e' \<le> 21
          then JNum (sgn m * int s * 10 ^ nat e') 0
          else JNum (sgn m * int s) e')"

text \<open>The literal that is read from the digits \<open>s\<close> of a printed number.\<close>

definition unsigned_literal :: "bool \<Rightarrow> nat \<Rightarrow> int \<Rightarrow> json" where
  "unsigned_literal neg s e =
     (if 0 \<le> e \<and> int (length (nat_digits s)) + e \<le> 21
      then JNum ((if neg then - 1 else 1) * int s * 10 ^ nat e) 0
      else JNum ((if neg then - 1 else 1) * int s) e)"

text \<open>A text after which a number ends: it is empty or begins with no part of a number.\<close>

definition number_end :: "jsstring \<Rightarrow> bool" where
  "number_end rest \<longleftrightarrow>
     (case rest of
        [] \<Rightarrow> True
      | c # cs \<Rightarrow> \<not> is_digit c \<and> c \<noteq> ch CHR ''.'' \<and> c \<noteq> ch CHR ''e'' \<and> c \<noteq> ch CHR ''E'')"

definition object_of :: "(jsstring \<times> 'v) list \<Rightarrow> (jsstring \<times> 'v) list" where
  "object_of ms = foldl (\<lambda>acc p. set_property acc (fst p) (snd p)) [] ms"

primrec reread :: "runtime \<Rightarrow> json \<Rightarrow> json" where
  "reread rt JNull = JNull"
| "reread rt (JBool b) = JBool b"
| "reread rt (JNum m e) = (case number_of rt m e of Fin a b \<Rightarrow> printed_literal a b | _ \<Rightarrow> JNull)"
| "reread rt JPosInf = JNull"
| "reread rt JNegInf = JNull"
| "reread rt JNaN = JNull"
| "reread rt (JStr s) = JStr s"
| "reread rt (JArr xs) = JArr (map (reread rt) xs)"
| "reread rt (JObj ms) = JObj (object_of (map (map_prod id (reread rt)) ms))"

text \<open>
  The text of \<open>{ token: t, expire: e }\<close> for a string \<open>t\<close> and an integer \<open>e\<close>
  below \<open>10^21\<close>.
\<close>

definition stringify_token :: "jsstring \<Rightarrow> int \<Rightarrow> jsstring" where
  "stringify_token t e =
     ch CHR ''{'' # JSON_quote (js ''token'') @ ch CHR '':'' # JSON_quote t
       @ ch CHR '','' # JSON_quote (js ''expire'') @ ch CHR '':'' # int_to_string e @ [ch CHR ''}'']"

section \<open>Conversions\<close>

text \<open>ToBoolean: what \<open>!v\<close> and \<open>v ? a : b\<close> test.\<close>

fun truthy :: "runtime \<Rightarrow> json \<Rightarrow> bool" where
  "truthy rt JNull = False"
| "truthy rt (JBool b) = b"
| "truthy rt (JNum m e) = num_truthy (number_of rt m e)"
| "truthy rt JPosInf = True"
| "truthy rt JNegInf = True"
| "truthy rt JNaN = False"
| "truthy rt (JStr s) = (s \<noteq> [])"
| "truthy rt (JArr xs) = True"
| "truthy rt (JObj ms) = True"

text \<open>The same for a value that may be \<open>undefined\<close> (\<open>None\<close>), and for a string.\<close>

fun truthy_opt :: "runtime \<Rightarrow> json option \<Rightarrow> bool" where
  "truthy_opt rt None = False"
| "truthy_opt rt (Some v) = truthy rt v"

fun truthy_str :: "jsstring option \<Rightarrow> bool" where
  "truthy_str None = False"
| "truthy_str (Some s) = (s \<noteq> [])"

text \<open>
  ToString, as a template literal and \<open>String(v)\<close> apply it. An array is joined
  with commas, \<open>null\<close> elements giving the empty string. An object is
  \<open>[object Object]\<close>, unless it has a property \<open>toString\<close> of its own: that
  property hides the method, no value of the model can be called, and the conversion
  throws a TypeError.
\<close>

fun join_elems :: "json list \<Rightarrow> (error + jsstring) list \<Rightarrow> error + jsstring" where
  "join_elems (x # xs) (r # rs) =
     (case (case x of JNull \<Rightarrow> Inr [] | _ \<Rightarrow> r) of
        Inl e \<Rightarrow> Inl e
      | Inr s \<Rightarrow>
          (case xs of
             [] \<Rightarrow> Inr s
           | y # ys \<Rightarrow>
               (case join_elems xs rs of
                  Inl e \<Rightarrow> Inl e
                | Inr t \<Rightarrow> Inr (s @ ch CHR '','' # t))))"
| "join_elems _ _ = Inr []"

primrec to_string :: "runtime \<Rightarrow> json \<Rightarrow> error + jsstring" where
  "to_string rt JNull = Inr (js ''null'')"
| "to_string rt (JBool b) = Inr (if b then js ''true'' else js ''false'')"
| "to_string rt (JNum m e) = Inr (jsnum_to_string (number_of rt m e))"
| "to_string rt JPosInf = Inr (jsnum_to_string PosInf)"
| "to_string rt JNegInf = Inr (jsnum_to_string NegInf)"
| "to_string rt JNaN = Inr (jsnum_to_string NaN)"
| "to_string rt (JStr s) = Inr s"
| "to_string rt (JArr xs) = join_elems xs (map (to_string rt) xs)"
| "to_string rt (JObj ms) =
     (if js ''toString'' \<in> set (map fst ms) then Inl JsError else Inr (js ''[object Object]''))"

text \<open>
  ToPrimitive followed, for everything but a string, by ToNumber: an array or an
  object is converted to its string, \<open>null\<close> is 0, \<open>false\<close> is 0 and \<open>true\<close>
  is 1.
\<close>

datatype primitive = PStr jsstring | PNum jsnum

fun primitive_of :: "runtime \<Rightarrow> json \<Rightarrow> error + primitive" where
  "primitive_of rt JNull = Inr (PNum (Fin 0 0))"
| "primitive_of rt (JBool b) = Inr (PNum (Fin (if b then 1 else 0) 0))"
| "primitive_of rt (JNum m e) = Inr (PNum (number_of rt m e))"
| "primitive_of rt JPosInf = Inr (PNum PosInf)"
| "primitive_of rt JNegInf = Inr (PNum NegInf)"
| "primitive_of rt JNaN = Inr (PNum NaN)"
| "primitive_of rt (JStr s) = Inr (PStr s)"
| "primitive_of rt v = (case to_string rt v of Inl e \<Rightarrow> Inl e | Inr s \<Rightarrow> Inr (PStr s))"

text \<open>ToNumber; \<open>undefined\<close> (\<open>None\<close>) is \<open>NaN\<close>.\<close>

definition to_number :: "runtime \<Rightarrow> json option \<Rightarrow> error + jsnum" where
  "to_number rt v =
     (case v of
        None \<Rightarrow> Inr NaN
      | Some x \<Rightarrow>
          (case primitive_of rt x of
             Inl e \<Rightarrow> Inl e
           | Inr (PNum n) \<Rightarrow> Inr n
           | Inr (PStr s) \<Rightarrow> Inr (StringToNumber rt s)))"

text \<open>
  \<open>new Date(v).toISOString()\<close>: a string is read by \<open>Date.parse\<close>, any other
  value is converted to a number; the call throws a RangeError unless the result is a
  time value.
\<close>

definition toISOString :: "runtime \<Rightarrow> json \<Rightarrow> error + unit" where
  "toISOString rt v =
     (case primitive_of rt v of
        Inl e \<Rightarrow> Inl e
      | Inr (PStr s) \<Rightarrow> if DateParse rt s then Inr () else Inl JsError
      | Inr (PNum n) \<Rightarrow> if is_time_value n then Inr () else Inl JsError)"

text \<open>The same for the reading \<open>t\<close> of \<open>Date.now()\<close>.\<close>

definition now_toISOString :: "int \<Rightarrow> error + unit" where
  "now_toISOString t = (if is_time_value (Fin t 0) then Inr () else Inl JsError)"

section \<open>Credentials (src/lib/token-info.ts)\<close>

text \<open>
  \<open>class TokenInfo { token: string | null; expire: number | null }\<close>. The types
  are annotations: the fields hold what \<open>JSON.parse\<close> found in the store or in the
  reply of the identity provider, of whatever type. The constructor replaces an
  argument that is \<open>undefined\<close> by the default \<open>null\<close>. Timestamps are
  milliseconds since the epoch, as \<open>Date.now()\<close> returns them.
\<close>

record TokenInfo =
  token :: json
  expire :: json

definition or_null :: "json option \<Rightarrow> json" where
  "or_null v = (case v of None \<Rightarrow> JNull | Some x \<Rightarrow> x)"

definition new_TokenInfo :: "json option \<Rightarrow> json option \<Rightarrow> TokenInfo" where
  "new_TokenInfo t e = \<lparr>token = or_null t, expire = or_null e\<rparr>"

definition empty_TokenInfo :: TokenInfo where
  "empty_TokenInfo = new_TokenInfo None None"

text \<open>
  \<open>isValid()\<close>; the third argument is the reading of \<open>Date.now()\<close>. After the
  guard the comparison \<open>currentTime < this.expire\<close> converts the expiry to a
  number, and the arguments of \<open>log.debug\<close> are evaluated before the result is
  returned: \<open>new Date(this.expire).toISOString()\<close> (the expiry is truthy here) and
  \<open>new Date(currentTime).toISOString()\<close>. Each of the three can throw.
\<close>

definition isValid :: "runtime \<Rightarrow> TokenInfo \<Rightarrow> int \<Rightarrow> error + bool" where
  "isValid rt ti currentTime =
     (if \<not> truthy rt (token ti) \<or> \<not> truthy rt (expire ti) then Inr False
      else
        (case to_number rt (Some (expire ti)) of
           Inl e \<Rightarrow> Inl e
         | Inr n \<Rightarrow>
             (case toISOString rt (expire ti) of
                Inl e \<Rightarrow> Inl e
              | Inr u \<Rightarrow>
                  (case now_toISOString currentTime of
                     Inl e \<Rightarrow> Inl e
                   | Inr u' \<Rightarrow> Inr (int_less_num currentTime n)))))"

section \<open>The credential store\<close>

text \<open>
  The Redis server behind \<open>getClient()\<close>: each key holds a string and the time (in
  milliseconds) at which \<open>SET ... EX ttl\<close> lets it expire. Any of the four operations
  the source performs may fail (\<open>faults\<close>); \<open>SET\<close> rejects a time-to-live that is
  not positive.
\<close>

datatype redis_op = Connect | Get | Set | Del

record redis =
  entries :: "jsstring \<rightharpoonup> (jsstring \<times> int)"
  faults :: "redis_op \<Rightarrow> bool"

definition redis_get :: "redis \<Rightarrow> int \<Rightarrow> jsstring \<Rightarrow> error + jsstring option" where
  "redis_get r now key =
     (if faults r Get then Inl JsError
      else case entries r key of
             None \<Rightarrow> Inr None
           | Some (v, deadline) \<Rightarrow> if now < deadline then Inr (Some v) else Inr None)"

definition redis_set :: "redis \<Rightarrow> int \<Rightarrow> jsstring \<Rightarrow> jsstring \<Rightarrow> int \<Rightarrow> error + redis" where
  "redis_set r now key v ttl =
     (if faults r Set \<or> ttl \<le> 0 then Inl JsError
      else Inr (r\<lparr>entries := (entries r)(key \<mapsto> (v, now + ttl * 1000))\<rparr>))"

definition redis_del :: "redis \<Rightarrow> jsstring \<Rightarrow> error + redis" where
  "redis_del r key =
     (if faults r Del then Inl JsError
      else Inr (r\<lparr>entries := (entries r)(key := None)\<rparr>))"

definition DEFAULT_TTL :: int where
  "DEFAULT_TTL = 3600"

definition token_key :: jsstring where
  "token_key = js ''token_info''"

text \<open>
  The arguments of the \<open>log.debug\<close> call of \<open>fromRedis\<close>, evaluated before the
  credential is returned: \<open>tokenInfo.expire ? new Date(tokenInfo.expire).toISOString() : null\<close>
  and \<open>tokenInfo.isValid()\<close>.
\<close>

definition loaded_log :: "runtime \<Rightarrow> TokenInfo \<Rightarrow> int \<Rightarrow> error + unit" where
  "loaded_log rt ti now =
     (case (if truthy rt (expire ti) then toISOString rt (expire ti) else Inr ()) of
        Inl e \<Rightarrow> Inl e
      | Inr u \<Rightarrow> (case isValid rt ti now of Inl e \<Rightarrow> Inl e | Inr b \<Rightarrow> Inr ()))"

text \<open>
  \<open>TokenInfo.fromRedis(key)\<close> at clock reading \<open>now\<close>. The inner function is the
  body of the \<open>try\<close>; the outer \<open>catch\<close> rethrows whatever it throws as a
  \<open>RedisError\<close>. A text that parses is not examined further: the credential takes
  whatever the value has as \<open>token\<close> and \<open>expire\<close>, and reading them from
  \<open>null\<close> throws a TypeError.
\<close>

definition fromRedis_body ::
  "runtime \<Rightarrow> jsstring \<Rightarrow> int \<Rightarrow> redis \<Rightarrow> (error + TokenInfo) \<times> redis" where
  "fromRedis_body rt key now r =
     (if faults r Connect then (Inl JsError, r)
      else case redis_get r now key of
        Inl e \<Rightarrow> (Inl e, r)
      | Inr None \<Rightarrow> (Inr empty_TokenInfo, r)
      | Inr (Some json) \<Rightarrow>
          if json = [] then (Inr empty_TokenInfo, r)
          else
            (case JSON_parse json of
               None \<Rightarrow>
                 (case redis_del r key of
                    Inl e \<Rightarrow> (Inl e, r)
                  | Inr r' \<Rightarrow> (Inr empty_TokenInfo, r'))
             | Some JNull \<Rightarrow> (Inl JsError, r)
             | Some parsed \<Rightarrow>
                 (case loaded_log rt (new_TokenInfo (get_field parsed (js ''token''))
                                        (get_field parsed (js ''expire''))) now of
                    Inl e \<Rightarrow> (Inl e, r)
                  | Inr u \<Rightarrow>
                      (Inr (new_TokenInfo (get_field parsed (js ''token''))
                              (get_field parsed (js ''expire''))), r))))"

definition fromRedis ::
  "runtime \<Rightarrow> jsstring \<Rightarrow> int \<Rightarrow> redis \<Rightarrow> (error + TokenInfo) \<times> redis" where
  "fromRedis rt key now r =
     (case fromRedis_body rt key now r of
        (Inl e, r') \<Rightarrow> (Inl RedisError, r')
      | (Inr ti, r') \<Rightarrow> (Inr ti, r'))"

text \<open>
  \<open>tokenInfo.save(key, ttl)\<close> at clock reading \<open>now\<close>, built the same way. After
  the \<open>SET\<close> the arguments of \<open>log.info\<close> are evaluated, among them
  \<open>new Date(this.expire).toISOString()\<close>: when that throws, \<open>save\<close> raises with
  the entry already written.
\<close>

definition save_body ::
  "runtime \<Rightarrow> TokenInfo \<Rightarrow> jsstring \<Rightarrow> int \<Rightarrow> int \<Rightarrow> redis \<Rightarrow> (error + unit) \<times> redis" where
  "save_body rt ti key ttl now r =
     (if faults r Connect then (Inl JsError, r)
      else if \<not> truthy rt (token ti) \<or> \<not> truthy rt (expire ti)
        then (Inl (AppError ''INVALID_TOKEN_SAVE''), r)
      else
        (case redis_set r now key
                (JSON_stringify rt (JObj [(js ''token'', token ti), (js ''expire'', expire ti)])) ttl of
           Inl e \<Rightarrow> (Inl e, r)
         | Inr r' \<Rightarrow>
             (case toISOString rt (expire ti) of
                Inl e \<Rightarrow> (Inl e, r')
              | Inr u \<Rightarrow> (Inr (), r'))))"

definition save ::
  "runtime \<Rightarrow> TokenInfo \<Rightarrow> jsstring \<Rightarrow> int \<Rightarrow> int \<Rightarrow> redis \<Rightarrow> (error + unit) \<times> redis" where
  "save rt ti key ttl now r =
     (case save_body rt ti key ttl now r of
        (Inl e, r') \<Rightarrow> (Inl RedisError, r')
      | (Inr u, r') \<Rightarrow> (Inr u, r'))"

section \<open>Locations and the check-in payload (types module)\<close>


record CheckInRecordField =
  FieldId :: int
  Values :: "jsstring list"
  Texts :: "jsstring list"
  HasValue :: bool

text \<open>The field \<open>Id\<close> of the source is \<open>Id'\<close> here (\<open>Id\<close> is the identity relation of HOL).\<close>

record CheckInPayload =
  Id' :: int
  ThreadId :: int
  Signature :: jsstring
  RecordValues :: "CheckInRecordField list"



definition API_BASE :: jsstring where
  "API_BASE = js ''https://i-api.jielong.com/api''"

definition CHECKIN_INFO :: "int \<Rightarrow> jsstring" where
  "CHECKIN_INFO threadId = API_BASE @ js ''/Thread/CheckIn/NameScope?threadId='' @ int_to_string threadId"


definition CHECKIN_AUTH :: "jsstring \<Rightarrow> jsstring" where
  "CHECKIN_AUTH wxCode = API_BASE @ js ''/User/OpenAuth?code='' @ wxCode"

section \<open>The world outside the process\<close>

text \<open>
  An HTTP exchange either fails in transport or yields a status and a body. The
  network is given by the answer to the first, second, ... exchange of a run, so
  that a theorem about every \<open>answers\<close> is one about every behaviour of the
  servers; \<open>requests\<close> logs what was sent.
\<close>

datatype http_response = NetFail | Response nat jsstring

datatype http_method = GET | POST

text \<open>The field \<open>method\<close> of the source's request options is \<open>verb\<close> here.\<close>

record http_request =
  url :: jsstring
  verb :: http_method
  body :: "CheckInPayload option"
  auth :: "jsstring option"

text \<open>
  \<open>engine\<close> is the JavaScript runtime of the process, \<open>env_APPID\<close> the environment
  variable \<open>APPID\<close>. The mail side: the \<open>EMAIL_*\<close> settings, the module variable \<open>EMAIL_ENABLED\<close>,
  the operations that can fail, and the list of the mails the transport accepted.
\<close>

record email_settings =
  EMAIL_HOST :: "jsstring option"
  EMAIL_USER :: "jsstring option"
  EMAIL_PASS :: "jsstring option"
  EMAIL_TO :: "jsstring option"

datatype mail_op = CreateTransport | WriteFile | SendMail | Unlink

datatype mail_kind = QRCodeMail jsstring | CheckinResultMail | TokenExpiredMail bool

record mail =
  recipient :: jsstring
  kind :: mail_kind

record world =
  engine :: runtime
  clock :: int
  store :: redis
  answers :: "nat \<Rightarrow> http_response"
  requests :: "http_request list"
  settings :: email_settings
  env_APPID :: "jsstring option"
  EMAIL_ENABLED :: bool
  mail_faults :: "mail_op \<Rightarrow> bool"
  outbox :: "mail list"
  render_fails :: bool

text \<open>\<open>await new Promise(resolve => setTimeout(resolve, ms))\<close>\<close>

definition sleep :: "int \<Rightarrow> world \<Rightarrow> world" where
  "sleep ms w = w\<lparr>clock := clock w + ms\<rparr>"

text \<open>\<open>fetch(url, options)\<close>: the request is logged and the next answer is taken.\<close>

definition fetch :: "http_request \<Rightarrow> world \<Rightarrow> http_response \<times> world" where
  "fetch rq w = (answers w (length (requests w)), w\<lparr>requests := requests w @ [rq]\<rparr>)"

definition response_ok :: "nat \<Rightarrow> bool" where
  "response_ok status \<longleftrightarrow> 200 \<le> status \<and> status \<le> 299"

text \<open>
  \<open>request(url, options, token)\<close> (src/lib/request.ts): every failure becomes a
  \<open>NetworkError\<close>; a body that parses as JSON is returned parsed, any other body as
  the string it is.
\<close>

definition request_result :: "http_response \<Rightarrow> error + json" where
  "request_result resp =
     (case resp of
        NetFail \<Rightarrow> Inl NetworkError
      | Response status text \<Rightarrow>
          if \<not> response_ok status then Inl NetworkError
          else (case JSON_parse text of
                  Some parsed \<Rightarrow> Inr parsed
                | None \<Rightarrow> Inr (JStr text)))"

definition request :: "http_request \<Rightarrow> world \<Rightarrow> (error + json) \<times> world" where
  "request rq w = (case fetch rq w of (resp, w') \<Rightarrow> (request_result resp, w'))"

text \<open>
  A process that has just started, in a world where nothing is stored, mail is not
  configured and the servers answer as \<open>script\<close> lists (and fail in transport once
  the list is used up). The examples contain no numeral and no string that the
  runtime would have to interpret; \<open>plain_runtime\<close> stands for any runtime there.
\<close>

definition script :: "http_response list \<Rightarrow> nat \<Rightarrow> http_response" where
  "script rs i = (if i < length rs then rs ! i else NetFail)"

definition plain_runtime :: runtime where
  "plain_runtime =
     \<lparr>RoundNumber = (\<lambda>m e. Fin m e), StringToNumber = (\<lambda>s. NaN), DateParse = (\<lambda>s. False)\<rparr>"

definition fresh_world :: "(nat \<Rightarrow> http_response) \<Rightarrow> world" where
  "fresh_world a =
     \<lparr>engine = plain_runtime,
      clock = 0,
      store = \<lparr>entries = Map.empty, faults = no_faults\<rparr>,
      answers = a,
      requests = [],
      settings = \<lparr>EMAIL_HOST = None, EMAIL_USER = None, EMAIL_PASS = None, EMAIL_TO = None\<rparr>,
      env_APPID = None,
      EMAIL_ENABLED = False,
      mail_faults = no_faults,
      outbox = [],
      render_fails = False\<rparr>"

section \<open>The QR login flow (wechat-utils)\<close>

subsection \<open>The regular expressions\<close>

text \<open>
  \<open>text.match(/uuid=([a-zA-Z0-9_-]+)/)\<close>, \<open>text.match(/wx_errcode=(\\d+)/)\<close> and
  \<open>text.match(/wx_code='([^']+)'/)\<close>: the capture group of the leftmost match.
\<close>

definition is_uuid_char :: "jschar \<Rightarrow> bool" where
  "is_uuid_char c \<longleftrightarrow>
     (0x61 \<le> c \<and> c \<le> 0x7A) \<or> (0x41 \<le> c \<and> c \<le> 0x5A) \<or> (0x30 \<le> c \<and> c \<le> 0x39)
     \<or> c = ch CHR ''_'' \<or> c = ch CHR ''-''"

fun match_uuid :: "jsstring \<Rightarrow> jsstring option" where
  "match_uuid [] = None"
| "match_uuid (c # cs) =
     (case strip_prefix (js ''uuid='') (c # cs) of
        None \<Rightarrow> match_uuid cs
      | Some rest \<Rightarrow>
          if takeWhile is_uuid_char rest \<noteq> [] then Some (takeWhile is_uuid_char rest)
          else match_uuid cs)"

fun match_errcode :: "jsstring \<Rightarrow> jsstring option" where
  "match_errcode [] = None"
| "match_errcode (c # cs) =
     (case strip_prefix (js ''wx_errcode='') (c # cs) of
        None \<Rightarrow> match_errcode cs
      | Some rest \<Rightarrow>
          if takeWhile is_digit rest \<noteq> [] then Some (takeWhile is_digit rest)
          else match_errcode cs)"

fun match_code :: "jsstring \<Rightarrow> jsstring option" where
  "match_code [] = None"
| "match_code (c # cs) =
     (case strip_prefix (js ''wx_code='' @ [0x27]) (c # cs) of
        None \<Rightarrow> match_code cs
      | Some rest \<Rightarrow>
          if takeWhile (\<lambda>x. x \<noteq> 0x27) rest \<noteq> [] \<and> dropWhile (\<lambda>x. x \<noteq> 0x27) rest \<noteq> []
          then Some (takeWhile (\<lambda>x. x \<noteq> 0x27) rest)
          else match_code cs)"

subsection \<open>\<open>fetchUUID\<close>\<close>

text \<open>\<open>process.env['APPID'] || 'wx4a23ae4b8f291087'\<close>\<close>

definition APPID :: "world \<Rightarrow> jsstring" where
  "APPID w = (if truthy_str (env_APPID w) then the (env_APPID w) else js ''wx4a23ae4b8f291087'')"

definition REDIRECT_URI :: jsstring where
  "REDIRECT_URI = js ''https%3A%2F%2Fi.jielong.com%2Flogin-callback''"

definition get_request :: "jsstring \<Rightarrow> http_request" where
  "get_request u = \<lparr>url = u, verb = GET, body = None, auth = None\<rparr>"

text \<open>
  A body that is not a string has no \<open>match\<close> function: the TypeError is not an
  \<open>AppError\<close> and is rethrown as a \<open>NetworkError\<close>.
\<close>

definition fetchUUID :: "world \<Rightarrow> (error + jsstring) \<times> world" where
  "fetchUUID w =
     (case request (get_request (js ''https://open.weixin.qq.com/connect/qrconnect?appid='' @ APPID w
                      @ js ''&scope=snsapi_login&redirect_uri='' @ REDIRECT_URI)) w of
        (Inl e, w') \<Rightarrow> (Inl e, w')
      | (Inr (JStr html), w') \<Rightarrow>
          (case match_uuid html of
             None \<Rightarrow> (Inl (AppError ''UUID_EXTRACTION_ERROR''), w')
           | Some uuid \<Rightarrow> (Inr uuid, w'))
      | (Inr _, w') \<Rightarrow> (Inl NetworkError, w'))"

subsection \<open>\<open>pollWxCode\<close>\<close>

text \<open>
  What one poll decides, from the result of its \<open>request\<close>: return the code,
  return \<open>null\<close>, or wait (1 s after a reply, 2 s after a failure caught by the inner
  \<open>catch\<close>) and poll again.
\<close>

datatype poll_decision = ReturnCode jsstring | ReturnNull | Continue int

definition poll_decide :: "error + json \<Rightarrow> poll_decision" where
  "poll_decide r =
     (case r of
        Inl e \<Rightarrow> Continue 2000
      | Inr (JStr text) \<Rightarrow>
          (let errcode = map_option digits_val (match_errcode text);
               codeMatch = match_code text
           in if errcode = Some 405 \<and> codeMatch \<noteq> None then ReturnCode (the codeMatch)
              else if errcode = Some 404 then Continue 1000
              else if errcode = Some 403 then ReturnNull
              else Continue 1000)
      | Inr _ \<Rightarrow> Continue 2000)"

definition maxPolls :: nat where
  "maxPolls = 300"

definition pollUrl :: "jsstring \<Rightarrow> jsstring" where
  "pollUrl uuid = js ''https://lp.open.weixin.qq.com/connect/l/qrconnect?uuid='' @ uuid @ js ''&last=404''"

function poll_loop :: "jsstring \<Rightarrow> nat \<Rightarrow> world \<Rightarrow> jsstring option \<times> world" where
  "poll_loop uuid polls w =
     (if polls < maxPolls then
        (case request (get_request (pollUrl uuid)) w of
           (r, w') \<Rightarrow>
             (case poll_decide r of
                ReturnCode code \<Rightarrow> (Some code, w')
              | ReturnNull \<Rightarrow> (None, w')
              | Continue ms \<Rightarrow> poll_loop uuid (Suc polls) (sleep ms w')))
      else (None, w))"
  by pat_completeness auto
termination
  by (relation "measure (\<lambda>(uuid, polls, w). maxPolls - polls)") auto

declare poll_loop.simps [simp del]

definition pollWxCode :: "jsstring \<Rightarrow> world \<Rightarrow> (error + jsstring option) \<times> world" where
  "pollWxCode uuid w =
     (if uuid = [] then (Inl (AppError ''MISSING_UUID''), w)
      else (case poll_loop uuid 0 w of (code, w') \<Rightarrow> (Inr code, w')))"

text \<open>What the poll after \<open>i\<close> further exchanges will decide, seen from the world \<open>w\<close>.\<close>

definition poll_reply :: "world \<Rightarrow> nat \<Rightarrow> poll_decision" where
  "poll_reply w i = poll_decide (request_result (answers w (length (requests w) + i)))"

text \<open>
  Bodies of the status endpoint in the format the regular expressions read:
  \<open>window.wx_errcode=N;window.wx_code='C';\<close>.
\<close>

definition status_body :: "nat \<Rightarrow> jsstring \<Rightarrow> jsstring" where
  "status_body errcode code =
     js ''window.wx_errcode='' @ nat_digits errcode @ js '';window.wx_code='' @ [0x27] @ code
       @ [0x27] @ js '';''"

subsection \<open>\<open>fetchTokenByWxCode\<close>\<close>

text \<open>\<open>response?.Data?.Token\<close>: \<open>undefined\<close> as soon as a link of the chain is missing.\<close>

definition optional_field :: "json option \<Rightarrow> jsstring \<Rightarrow> json option" where
  "optional_field v k =
     (case v of None \<Rightarrow> None | Some JNull \<Rightarrow> None | Some obj \<Rightarrow> get_field obj k)"

definition post_request :: "jsstring \<Rightarrow> http_request" where
  "post_request u = \<lparr>url = u, verb = POST, body = None, auth = None\<rparr>"

text \<open>
  \<open>fetchTokenByWxCode\<close>: the two fields of the reply are tested for truthiness
  only. The template literal \<open>`Bearer ${tokenData}`\<close> converts the token to a
  string and the argument \<open>new Date(result.expire).toISOString()\<close> of \<open>log.info\<close>
  is evaluated before the result is returned; what they throw is no \<open>AppError\<close>
  and is rethrown as a \<open>NetworkError\<close>.
\<close>

definition fetchTokenByWxCode :: "jsstring \<Rightarrow> world \<Rightarrow> (error + TokenInfo) \<times> world" where
  "fetchTokenByWxCode wxCode w =
     (if wxCode = [] then (Inl (AppError ''MISSING_WX_CODE''), w)
      else
        (case request (post_request (CHECKIN_AUTH wxCode)) w of
           (Inl e, w') \<Rightarrow> (Inl e, w')
         | (Inr response, w') \<Rightarrow>
             (let tokenData = optional_field (optional_field (Some response) (js ''Data'')) (js ''Token'');
                  expire = optional_field (optional_field (Some response) (js ''Data'')) (js ''Expire'')
              in if \<not> truthy_opt (engine w') tokenData \<or> \<not> truthy_opt (engine w') expire
                 then (Inl (AppError ''INVALID_TOKEN_RESPONSE''), w')
                 else
                   (case to_string (engine w') (the tokenData) of
                      Inl e \<Rightarrow> (Inl NetworkError, w')
                    | Inr s \<Rightarrow>
                        (case toISOString (engine w') (the expire) of
                           Inl e \<Rightarrow> (Inl NetworkError, w')
                         | Inr u \<Rightarrow>
                             (Inr \<lparr>token = JStr (js ''Bearer '' @ s), expire = the expire\<rparr>, w'))))))"

text \<open>
  A body of the exchange endpoint with both fields:
  \<open>{"Data":{"Token":t,"Expire":e}}\<close>.
\<close>

definition token_response_body :: "jsstring \<Rightarrow> int \<Rightarrow> jsstring" where
  "token_response_body t e =
     ch CHR ''{'' # JSON_quote (js ''Data'') @ ch CHR '':'' # ch CHR ''{''
       # JSON_quote (js ''Token'') @ ch CHR '':'' # JSON_quote t
       @ ch CHR '','' # JSON_quote (js ''Expire'') @ ch CHR '':'' # int_to_string e
       @ [ch CHR ''}'', ch CHR ''}'']"

text \<open>
  \<open>TokenInfo.fetchTokenByWxCode\<close>: an \<open>AppError\<close> is rethrown as it is, anything
  else as an \<open>AuthenticationError\<close>.
\<close>

definition TokenInfo_fetchTokenByWxCode :: "jsstring \<Rightarrow> world \<Rightarrow> (error + TokenInfo) \<times> world" where
  "TokenInfo_fetchTokenByWxCode wxCode w =
     (case fetchTokenByWxCode wxCode w of
        (Inl e, w') \<Rightarrow> (Inl (if is_AppError e then e else AuthenticationError), w')
      | (Inr ti, w') \<Rightarrow> (Inr ti, w'))"

section \<open>The check-in client (src/lib/checkin-utils.ts)\<close>






section \<open>QR code images (qrcode-utils)\<close>

text \<open>
  \<open>validateUUID\<close>: non-empty after trimming, and the trimmed string matches
  \<open>/^[a-zA-Z0-9_-]+$/\<close>.
\<close>

definition validateUUID :: "jsstring \<Rightarrow> error + unit" where
  "validateUUID uuid =
     (if uuid = [] \<or> length (trim uuid) = 0 then Inl ValidationError
      else if \<not> list_all is_uuid_char (trim uuid) then Inl ValidationError
      else Inr ())"

definition qrUrl :: "jsstring \<Rightarrow> jsstring" where
  "qrUrl uuid = js ''https://open.weixin.qq.com/connect/qrcode/'' @ trim uuid"

text \<open>
  \<open>fetchQRCodeBuffer\<close>: the image bytes are the body of the answer. What the
  \<open>try\<close> throws is an \<open>AppError\<close> already or is rethrown as one.
\<close>

definition fetchQRCodeBuffer :: "jsstring \<Rightarrow> world \<Rightarrow> (error + jsstring) \<times> world" where
  "fetchQRCodeBuffer uuid w =
     (if uuid = [] then (Inl ValidationError, w)
      else case validateUUID uuid of
        Inl e \<Rightarrow> (Inl e, w)
      | Inr u \<Rightarrow>
          (case fetch (get_request (qrUrl uuid)) w of
             (NetFail, w') \<Rightarrow> (Inl (AppError ''QR_FETCH_ERROR''), w')
           | (Response status buffer, w') \<Rightarrow>
               if \<not> response_ok status then (Inl (AppError ''QR_FETCH_ERROR''), w')
               else if length buffer = 0 then (Inl (AppError ''QR_EMPTY_ERROR''), w')
               else (Inr buffer, w')))"

text \<open>
  \<open>printAsciiQRCode\<close>: the same download, then the image is resized and drawn in
  the terminal, which fails when \<open>render_fails\<close>.
\<close>

definition printAsciiQRCode :: "jsstring \<Rightarrow> world \<Rightarrow> (error + unit) \<times> world" where
  "printAsciiQRCode uuid w =
     (if uuid = [] then (Inl ValidationError, w)
      else case validateUUID uuid of
        Inl e \<Rightarrow> (Inl e, w)
      | Inr u \<Rightarrow>
          (case fetch (get_request (qrUrl uuid)) w of
             (NetFail, w') \<Rightarrow> (Inl (AppError ''QR_DISPLAY_ERROR''), w')
           | (Response status buffer, w') \<Rightarrow>
               if \<not> response_ok status then (Inl (AppError ''QR_FETCH_ERROR''), w')
               else if length buffer = 0 then (Inl (AppError ''QR_EMPTY_ERROR''), w')
               else if render_fails w' then (Inl (AppError ''QR_DISPLAY_ERROR''), w')
               else (Inr (), w')))"

section \<open>The notifier (src/lib/email-utils.ts)\<close>

definition hasEmailConfig :: "email_settings \<Rightarrow> bool" where
  "hasEmailConfig s \<longleftrightarrow>
     truthy_str (EMAIL_HOST s) \<and> truthy_str (EMAIL_USER s) \<and> truthy_str (EMAIL_PASS s)"

definition hasEmailRecipient :: "email_settings \<Rightarrow> bool" where
  "hasEmailRecipient s \<longleftrightarrow> truthy_str (EMAIL_TO s)"

text \<open>\<open>getEmailConfig()\<close>; of the configuration only \<open>auth.user\<close> is used below.\<close>

definition getEmailConfig :: "email_settings \<Rightarrow> error + jsstring" where
  "getEmailConfig s = (if \<not> hasEmailConfig s then Inl ValidationError else Inr (the (EMAIL_USER s)))"

definition createMailSender :: "world \<Rightarrow> error + unit" where
  "createMailSender w =
     (if \<not> EMAIL_ENABLED w then Inl (AppError ''EMAIL_DISABLED'')
      else case getEmailConfig (settings w) of
        Inl e \<Rightarrow> Inl (AppError ''EMAIL_TRANSPORT_ERROR'')
      | Inr user \<Rightarrow>
          if mail_faults w CreateTransport then Inl (AppError ''EMAIL_TRANSPORT_ERROR'')
          else Inr ())"

text \<open>\<open>transporter.sendMail(mailOptions)\<close>\<close>

definition sendMail :: "mail \<Rightarrow> world \<Rightarrow> (error + unit) \<times> world" where
  "sendMail m w =
     (if mail_faults w SendMail then (Inl JsError, w)
      else (Inr (), w\<lparr>outbox := outbox w @ [m]\<rparr>))"

text \<open>
  The \<open>try\<close> block shared by the three operations: create the transport, read the
  configuration, run what precedes the sending (\<open>pre_fails\<close>: writing the
  temporary file of the QR code, making the text of the check-in result), send.
\<close>

definition mail_attempt :: "bool \<Rightarrow> mail_kind \<Rightarrow> world \<Rightarrow> (error + unit) \<times> world" where
  "mail_attempt pre_fails k w =
     (case createMailSender w of
        Inl e \<Rightarrow> (Inl e, w)
      | Inr transporter \<Rightarrow>
          (case getEmailConfig (settings w) of
             Inl e \<Rightarrow> (Inl e, w)
           | Inr user \<Rightarrow>
               if pre_fails then (Inl JsError, w)
               else sendMail \<lparr>recipient = user, kind = k\<rparr> w))"

text \<open>
  \<open>sendEmailWithQRCode(uuid, qrBuffer)\<close> for a UUID that is a string;
  \<open>None\<close> is a second argument that is not a \<open>Buffer\<close>. The two
  validations stand before the \<open>try\<close>; what the
  \<open>try\<close> throws is logged and dropped, and a failing \<open>unlink\<close> of the temporary
  file is caught on its own.
\<close>

definition sendEmailWithQRCode ::
  "jsstring \<Rightarrow> jsstring option \<Rightarrow> world \<Rightarrow> (error + unit) \<times> world" where
  "sendEmailWithQRCode uuid qrBuffer w =
     (if \<not> EMAIL_ENABLED w then (Inr (), w)
      else if uuid = [] \<or> length (trim uuid) = 0 then (Inl ValidationError, w)
      else if (case qrBuffer of None \<Rightarrow> True | Some b \<Rightarrow> length b = 0) then (Inl ValidationError, w)
      else (case mail_attempt (mail_faults w WriteFile) (QRCodeMail uuid) w of
              (r, w') \<Rightarrow> (Inr (), w')))"







section \<open>Ensuring a credential (\<open>TokenInfo.get_ensureLoggedIn\<close>)\<close>

text \<open>\<open>TokenInfo.fromRedis()\<close> and \<open>tokenInfo.save()\<close> with their default arguments.\<close>

definition fromRedis_w :: "world \<Rightarrow> (error + TokenInfo) \<times> world" where
  "fromRedis_w w =
     (case fromRedis (engine w) token_key (clock w) (store w) of (r, s) \<Rightarrow> (r, w\<lparr>store := s\<rparr>))"

definition save_w :: "TokenInfo \<Rightarrow> world \<Rightarrow> (error + unit) \<times> world" where
  "save_w ti w =
     (case save (engine w) ti token_key DEFAULT_TTL (clock w) (store w) of
        (r, s) \<Rightarrow> (r, w\<lparr>store := s\<rparr>))"

text \<open>
  One pass through the body of \<open>while (true)\<close>: it ends the loop with a result or
  asks for another pass, after the 2 s of back-off. The results of the QR download,
  of the terminal display and of the mail are used only for the image buffer. After
  the \<open>save\<close> the arguments of \<open>log.info\<close> are evaluated inside the \<open>try\<close>.
\<close>

datatype 'a step = Done 'a | Retry

definition login_step :: "world \<Rightarrow> (error + TokenInfo) step \<times> world" where
  "login_step w =
     (case fetchUUID w of
        (Inl e, w1) \<Rightarrow> (Retry, sleep 2000 w1)
      | (Inr uuid, w1) \<Rightarrow>
          (case fetchQRCodeBuffer uuid w1 of (qr, w2) \<Rightarrow>
          (case printAsciiQRCode uuid w2 of (shown, w3) \<Rightarrow>
          (case sendEmailWithQRCode uuid (Some (case qr of Inl e \<Rightarrow> [] | Inr qrBuffer \<Rightarrow> qrBuffer)) w3 of
             (mailed, w4) \<Rightarrow>
          (case pollWxCode uuid w4 of
             (Inl e, w5) \<Rightarrow> (Done (Inl (if is_AppError e then e else AuthenticationError)), w5)
           | (Inr None, w5) \<Rightarrow> (Retry, sleep 2000 w5)
           | (Inr (Some wxCode), w5) \<Rightarrow>
               if wxCode = [] then (Retry, sleep 2000 w5)
               else
                 (case TokenInfo_fetchTokenByWxCode wxCode w5 of
                    (Inl e, w6) \<Rightarrow> (Retry, sleep 2000 w6)
                  | (Inr newTokenInfo, w6) \<Rightarrow>
                      (case save_w newTokenInfo w6 of
                         (Inl e, w7) \<Rightarrow> (Retry, sleep 2000 w7)
                       | (Inr u, w7) \<Rightarrow>
                           (case (if truthy (engine w7) (expire newTokenInfo)
                                  then toISOString (engine w7) (expire newTokenInfo)
                                  else Inr ()) of
                              Inl e \<Rightarrow> (Retry, sleep 2000 w7)
                            | Inr u' \<Rightarrow> (Done (Inr newTokenInfo), w7)))))))))"

text \<open>The loop has no exit of its own: \<open>None\<close> is a run that never returns.\<close>

partial_function (option) login_loop :: "world \<Rightarrow> ((error + TokenInfo) \<times> world) option" where
  "login_loop w =
     (case login_step w of
        (Done r, w') \<Rightarrow> Some (r, w')
      | (Retry, w') \<Rightarrow> login_loop w')"

definition get_ensureLoggedIn :: "world \<Rightarrow> ((error + TokenInfo) \<times> world) option" where
  "get_ensureLoggedIn w =
     (case fromRedis_w w of
        (Inl e, w1) \<Rightarrow> Some (Inl (if is_AppError e then e else AuthenticationError), w1)
      | (Inr tokenInfo, w1) \<Rightarrow>
          (case isValid (engine w1) tokenInfo (clock w1) of
             Inl e \<Rightarrow> Some (Inl (if is_AppError e then e else AuthenticationError), w1)
           | Inr True \<Rightarrow> Some (Inr tokenInfo, w1)
           | Inr False \<Rightarrow> login_loop w1))"

section \<open>The scheduler\<close>

text \<open>
  The module variable \<open>checkinJob\<close> holds the \<open>CronJob\<close> or \<open>null\<close>. Beside it the
  state counts the \<open>CronJob\<close> objects constructed so far and those whose timer is
  armed, which is what a second, concurrent job would show in. With the constant
  pattern and time zone the constructor and \<open>start()\<close> succeed, and \<open>stop()\<close> (no
  \<open>onComplete\<close> callback is given) only clears the timer: the \<open>catch\<close> blocks of
  \<open>startScheduler\<close> and \<open>stopScheduler\<close> have nothing to catch.
\<close>

record cronjob =
  cronTime :: jsstring
  timeZone :: jsstring
  running :: bool

record scheduler =
  checkinJob :: "cronjob option"
  constructed :: nat
  armed :: nat

definition DAILY_CHECKIN_TIME :: jsstring where
  "DAILY_CHECKIN_TIME = js ''0 5 19 * * *''"

definition TIMEZONE :: jsstring where
  "TIMEZONE = js ''Asia/Shanghai''"

definition startScheduler :: "scheduler \<Rightarrow> scheduler" where
  "startScheduler s =
     (case checkinJob s of
        Some job \<Rightarrow> s
      | None \<Rightarrow>
          s\<lparr>checkinJob := Some \<lparr>cronTime = DAILY_CHECKIN_TIME, timeZone = TIMEZONE, running = True\<rparr>,
            constructed := constructed s + 1,
            armed := armed s + 1\<rparr>)"

definition stopScheduler :: "scheduler \<Rightarrow> scheduler" where
  "stopScheduler s =
     (case checkinJob s of
        Some job \<Rightarrow> s\<lparr>checkinJob := None, armed := armed s - (if running job then 1 else 0)\<rparr>
      | None \<Rightarrow> s)"

text \<open>
  What \<open>checkinJob.nextDate()?.toJSDate()\<close> gives is up to the library: a date, no
  date, or an exception.
\<close>

datatype next_date = NextDate int | NoDate | NextDateThrows

record scheduler_status =
  isRunning :: bool
  checkinJobStatus :: bool
  nextCheckinDate :: "int option"

definition getSchedulerStatus :: "next_date \<Rightarrow> scheduler \<Rightarrow> scheduler_status \<times> scheduler" where
  "getSchedulerStatus nd s =
     (case checkinJob s of
        None \<Rightarrow> (\<lparr>isRunning = False, checkinJobStatus = False, nextCheckinDate = None\<rparr>, s)
      | Some job \<Rightarrow>
          (case nd of
             NextDate d \<Rightarrow>
               (\<lparr>isRunning = True, checkinJobStatus = True, nextCheckinDate = Some d\<rparr>, s)
           | NoDate \<Rightarrow>
               (\<lparr>isRunning = False, checkinJobStatus = False, nextCheckinDate = None\<rparr>,
                s\<lparr>checkinJob := None\<rparr>)
           | NextDateThrows \<Rightarrow>
               (\<lparr>isRunning = False, checkinJobStatus = False, nextCheckinDate = None\<rparr>,
                s\<lparr>checkinJob := None\<rparr>)))"

text \<open>The module as loaded: no job yet.\<close>

definition initial_scheduler :: scheduler where
  "initial_scheduler = \<lparr>checkinJob = None, constructed = 0, armed = 0\<rparr>"

section \<open>Basic facts\<close>

lemma no_faults_iff [simp]: "\<not> no_faults op"
  by (simp add: no_faults_def)

lemma only_fails_iff [simp]: "only_fails bad op \<longleftrightarrow> op = bad"
  by (simp add: only_fails_def)

lemma script_Nil [simp]: "script [] i = NetFail"
  by (simp add: script_def)

lemma answers_fresh_world [simp]: "answers (fresh_world a) = a"
  by (simp add: fresh_world_def)

section \<open>Properties of the JSON functions\<close>

subsection \<open>Strings: \<open>JSON.parse\<close> reads back what \<open>JSON.stringify\<close> quotes\<close>

lemma unat_of_nat16: "n < 65536 \<Longrightarrow> unat (of_nat n :: 16 word) = n"
  by (simp add: unat_of_nat)

lemma unat_hex_char: "d < 16 \<Longrightarrow> unat (hex_char d) = (if d < 10 then 48 + d else 87 + d)"
  unfolding hex_char_def by (simp only: unat_of_nat16 split: if_splits) simp

lemma hex_val_hex_char: "d < 16 \<Longrightarrow> hex_val (hex_char d) = Some d"
  by (simp add: hex_val_def word_le_nat_alt unat_hex_char)

lemma hex_digits_nat:
  fixes n :: nat
  shows "((n div 4096 * 16 + n div 256 mod 16) * 16 + n div 16 mod 16) * 16 + n mod 16 = n"
proof -
  have a: "n div 256 = n div 16 div 16" by (simp flip: div_mult2_eq)
  have b: "n div 4096 = n div 16 div 16 div 16" by (simp flip: div_mult2_eq)
  show ?thesis unfolding a b by (simp only: div_mult_mod_eq)
qed

lemma hex4_roundtrip:
  "hex4 (hex_char (unat c div 4096)) (hex_char (unat c div 256 mod 16))
        (hex_char (unat c div 16 mod 16)) (hex_char (unat c mod 16)) = Some c"
proof -
  have lt: "unat c < 65536" using unsigned_less [of c, where ?'a = nat] by simp
  then have d3: "unat c div 4096 < 16" by simp
  have hv: "hex_val (hex_char (unat c div 4096)) = Some (unat c div 4096)"
    "hex_val (hex_char (unat c div 256 mod 16)) = Some (unat c div 256 mod 16)"
    "hex_val (hex_char (unat c div 16 mod 16)) = Some (unat c div 16 mod 16)"
    "hex_val (hex_char (unat c mod 16)) = Some (unat c mod 16)"
    by (simp_all add: hex_val_hex_char d3)
  have "(of_nat (unat c) :: 16 word) = c" by simp
  then show ?thesis
    unfolding hex4_def hv by (simp only: prod.case option.case hex_digits_nat)
qed

lemma parse_chars_unicode_escape:
  "parse_chars (unicode_escape c @ xs) = cons_char c (parse_chars xs)"
  using hex4_roundtrip [of c] by (simp add: unicode_escape_def ch_def)

lemma short_escape_unescape:
  "short_escape c = Some e \<Longrightarrow> unescape e = Some c \<and> e \<noteq> ch CHR ''u''"
  by (auto simp: short_escape_def unescape_def ch_def split: if_splits)

lemma short_escape_None:
  "short_escape c = None \<Longrightarrow> c \<noteq> 0x22 \<and> c \<noteq> 0x5C"
  by (auto simp: short_escape_def split: if_splits)

lemma parse_chars_quote_chars:
  "parse_chars (quote_chars s @ 0x22 # rest) = Some (s, rest)"
proof (induction s rule: quote_chars.induct)
  case 1
  show ?case by simp
next
  case (2 c cs)
  show ?case
  proof (cases "short_escape c")
    case (Some e)
    with 2 short_escape_unescape [OF Some] show ?thesis
      by (simp add: cons_char_def)
  next
    case None
    note sn = short_escape_None [OF None]
    show ?thesis
    proof (cases "c < 0x20")
      case True
      with None 2 show ?thesis
        by (simp add: parse_chars_unicode_escape cons_char_def)
    next
      case nctl: False
      show ?thesis
      proof (cases "is_high_surrogate c")
        case hs: True
        show ?thesis
        proof (cases cs)
          case Nil
          with None nctl hs show ?thesis
            by (simp add: parse_chars_unicode_escape cons_char_def)
        next
          case (Cons d ds)
          show ?thesis
          proof (cases "is_low_surrogate d")
            case True
            then have d: "d \<noteq> 0x22" "d \<noteq> 0x5C" "\<not> d < 0x20"
              by (auto simp: is_low_surrogate_def word_le_nat_alt word_less_nat_alt)
            from None nctl hs Cons True 2(2) sn d show ?thesis
              by (simp add: cons_char_def)
          next
            case False
            with None nctl hs Cons 2(3) show ?thesis
              by (simp add: parse_chars_unicode_escape cons_char_def)
          qed
        qed
      next
        case nhs: False
        show ?thesis
        proof (cases "is_low_surrogate c")
          case True
          with None nctl nhs 2(4) show ?thesis
            by (simp add: parse_chars_unicode_escape cons_char_def)
        next
          case False
          with None nctl nhs 2(5) sn show ?thesis
            by (simp add: cons_char_def)
        qed
      qed
    qed
  qed
qed

subsection \<open>Numbers: \<open>JSON.parse\<close> reads back the digits of an integer\<close>

lemma unat_digit_char: "d < 10 \<Longrightarrow> unat (digit_char d) = 48 + d"
  unfolding digit_char_def by (simp only: unat_of_nat16)

lemma is_digit_digit_char: "d < 10 \<Longrightarrow> is_digit (digit_char d)"
  by (simp add: is_digit_def word_le_nat_alt unat_digit_char)

lemma digit_val_digit_char: "d < 10 \<Longrightarrow> digit_val (digit_char d) = d"
  by (simp add: digit_val_def unat_digit_char)

lemma digit_char_eq_zero: "d < 10 \<Longrightarrow> digit_char d = 0x30 \<longleftrightarrow> d = 0"
proof -
  assume d: "d < 10"
  have "digit_char d = 0x30 \<longleftrightarrow> unat (digit_char d) = unat (0x30 :: 16 word)"
    by (simp only: word_unat_eq_iff)
  with d show ?thesis by (simp add: unat_digit_char)
qed

lemma nat_digits_nonempty: "nat_digits n \<noteq> []"
  by (subst nat_digits.simps) simp

lemma nat_digits_all_digits: "\<forall>c \<in> set (nat_digits n). is_digit c"
proof (induction n rule: nat_digits.induct)
  case (1 n)
  then show ?case
    by (subst nat_digits.simps) (auto simp: is_digit_digit_char)
qed

lemma digits_val_snoc: "digits_val (ds @ [c]) = 10 * digits_val ds + digit_val c"
  by (simp add: digits_val_def)

lemma digits_val_nat_digits: "digits_val (nat_digits n) = n"
proof (induction n rule: nat_digits.induct)
  case (1 n)
  show ?case
  proof (cases "n < 10")
    case True
    then show ?thesis
      by (subst nat_digits.simps) (simp add: digits_val_def digit_val_digit_char)
  next
    case False
    with 1 show ?thesis
      by (subst nat_digits.simps) (simp add: digits_val_snoc digit_val_digit_char)
  qed
qed

lemma hd_nat_digits: "0 < n \<Longrightarrow> hd (nat_digits n) \<noteq> 0x30"
proof (induction n rule: nat_digits.induct)
  case (1 n)
  show ?case
  proof (cases "n < 10")
    case True
    with 1(2) show ?thesis
      by (subst nat_digits.simps) (simp add: digit_char_eq_zero)
  next
    case False
    then have "0 < n div 10" by simp
    with 1(1) False have "hd (nat_digits (n div 10)) \<noteq> 0x30" by simp
    with False show ?thesis
      by (subst nat_digits.simps) (simp add: nat_digits_nonempty)
  qed
qed

lemma takeWhile_nat_digits:
  "\<not> is_digit c \<Longrightarrow> takeWhile is_digit (nat_digits n @ c # rest) = nat_digits n"
  using nat_digits_all_digits [of n] by (simp add: takeWhile_tail)

lemma dropWhile_nat_digits:
  "\<not> is_digit c \<Longrightarrow> dropWhile is_digit (nat_digits n @ c # rest) = c # rest"
  using nat_digits_all_digits [of n] by (simp add: dropWhile_append3)

lemma parse_int_part_nat_digits:
  assumes "\<not> is_digit c"
  shows "parse_int_part (nat_digits n @ c # rest) = Some (nat_digits n, c # rest)"
proof (cases "n = 0")
  case True
  then have "nat_digits n = [0x30]"
    by (subst nat_digits.simps) (simp add: digit_char_def)
  then show ?thesis by (simp add: parse_int_part_def)
next
  case False
  obtain d ds where ds: "nat_digits n = d # ds"
    using nat_digits_nonempty [of n] by (cases "nat_digits n") auto
  from False hd_nat_digits [of n] ds have d0: "d \<noteq> 0x30" by simp
  from nat_digits_all_digits [of n] ds have dd: "is_digit d" by simp
  have "parse_int_part (nat_digits n @ c # rest)
        = Some (takeWhile is_digit (nat_digits n @ c # rest),
                dropWhile is_digit (nat_digits n @ c # rest))"
    using d0 dd by (simp add: parse_int_part_def ds)
  with assms show ?thesis
    by (simp add: takeWhile_nat_digits dropWhile_nat_digits)
qed

lemma parse_unsigned_nat_digits:
  "parse_unsigned neg (nat_digits n @ ch CHR ''}'' # rest)
   = Some (JNum (if neg then - int n else int n) 0, ch CHR ''}'' # rest)"
proof -
  have c: "ch CHR ''}'' = 0x7D" by (simp add: ch_def)
  have nd: "\<not> is_digit 0x7D" by (simp add: is_digit_def)
  show ?thesis
    unfolding c
    by (simp add: parse_unsigned_def parse_int_part_nat_digits [OF nd]
        parse_frac_part_def parse_exp_part_def digits_val_nat_digits ch_def)
qed

lemma parse_number_int_to_string:
  "parse_number (int_to_string i @ ch CHR ''}'' # rest) = Some (JNum i 0, ch CHR ''}'' # rest)"
proof (cases "i < 0")
  case True
  then show ?thesis
    by (simp add: parse_number_def int_to_string_def parse_unsigned_nat_digits)
next
  case False
  obtain d ds where ds: "nat_digits (nat i) = d # ds"
    using nat_digits_nonempty [of "nat i"] by (cases "nat_digits (nat i)") auto
  from nat_digits_all_digits [of "nat i"] ds have "is_digit d" by simp
  then have "d \<noteq> ch CHR ''-''" by (auto simp: is_digit_def ch_def)
  then have "parse_number (nat_digits (nat i) @ ch CHR ''}'' # rest)
             = parse_unsigned False (nat_digits (nat i) @ ch CHR ''}'' # rest)"
    by (simp add: parse_number_def ds)
  with False show ?thesis
    by (simp add: int_to_string_def parse_unsigned_nat_digits)
qed

subsection \<open>The stored credential: \<open>JSON.parse (JSON.stringify {token, expire})\<close>\<close>

lemma ch_codes:
  "ch CHR ''{'' = 0x7B" "ch CHR ''}'' = 0x7D" "ch CHR ''['' = 0x5B" "ch CHR '']'' = 0x5D"
  "ch CHR '':'' = 0x3A" "ch CHR '','' = 0x2C" "ch CHR ''-'' = 0x2D" "ch CHR ''t'' = 0x74"
  "ch CHR ''f'' = 0x66" "ch CHR ''n'' = 0x6E"
  by (simp_all add: ch_def)

lemma skip_ws_Cons: "\<not> is_json_ws c \<Longrightarrow> skip_ws (c # cs) = c # cs"
  by (simp add: skip_ws_def)

lemma not_json_ws:
  "\<not> is_json_ws 0x7B" "\<not> is_json_ws 0x22" "\<not> is_json_ws 0x3A"
  "\<not> is_json_ws 0x2C" "\<not> is_json_ws 0x7D"
  by (simp_all add: is_json_ws_def)

lemma int_to_string_head:
  obtains c cs where "int_to_string i = c # cs" "c = 0x2D \<or> is_digit c"
proof (cases "i < 0")
  case True
  then have "int_to_string i = 0x2D # nat_digits (nat (- i))"
    by (simp add: int_to_string_def ch_codes)
  then show ?thesis using that by blast
next
  case False
  obtain d ds where ds: "nat_digits (nat i) = d # ds"
    using nat_digits_nonempty [of "nat i"] by (cases "nat_digits (nat i)") auto
  from nat_digits_all_digits [of "nat i"] ds have "is_digit d" by simp
  with False ds show ?thesis using that by (simp add: int_to_string_def)
qed

lemma parse_value_int_to_string:
  "parse_value (Suc n) (int_to_string i @ 0x7D # rest) = Accept (JNum i 0) (0x7D # rest)"
proof -
  obtain c cs where s: "int_to_string i = c # cs" and c: "c = 0x2D \<or> is_digit c"
    by (rule int_to_string_head)
  from c have nws: "\<not> is_json_ws c"
    by (auto simp: is_json_ws_def is_digit_def)
  from c have ne: "c \<noteq> 0x7B" "c \<noteq> 0x5B" "c \<noteq> 0x22" "c \<noteq> 0x74" "c \<noteq> 0x66" "c \<noteq> 0x6E"
    by (auto simp: is_digit_def)
  have "parse_value (Suc n) (c # cs @ 0x7D # rest)
        = of_option (parse_number (c # cs @ 0x7D # rest))"
    by (subst parse_value.simps)
       (simp only: skip_ws_Cons [OF nws] list.case ch_codes ne if_False parse_scalar_def)
  also have "c # cs @ 0x7D # rest = int_to_string i @ ch CHR ''}'' # rest"
    by (simp add: s ch_codes)
  finally have "parse_value (Suc n) (int_to_string i @ ch CHR ''}'' # rest)
                = Accept (JNum i 0) (ch CHR ''}'' # rest)"
    by (simp add: parse_number_int_to_string of_option_def)
  then show ?thesis by (simp add: ch_codes)
qed

lemma parse_value_quoted:
  "parse_value (Suc n) (0x22 # quote_chars t @ 0x22 # r) = Accept (JStr t) r"
  by (subst parse_value.simps)
     (simp add: skip_ws_Cons not_json_ws ch_codes parse_chars_quote_chars of_option_def
        parse_scalar_def)


subsection \<open>The parser never runs out of fuel\<close>

lemma length_skip_ws: "length (skip_ws cs) \<le> length cs"
  by (simp add: skip_ws_def length_dropWhile_le)

lemma skip_ws_length: "skip_ws cs = c # r \<Longrightarrow> length r < length cs"
  using length_skip_ws [of cs] by simp

lemma parse_chars_length: "parse_chars cs = Some (s, r) \<Longrightarrow> length r < length cs"
proof (induction cs arbitrary: s r rule: parse_chars.induct)
  case 1
  then show ?case by simp
next
  case (2 c cs)
  then show ?case
    by (fastforce simp: cons_char_def split: if_splits list.splits option.splits)
qed

lemma strip_prefix_length: "strip_prefix p cs = Some r \<Longrightarrow> length r \<le> length cs"
  by (induction p cs rule: strip_prefix.induct) (auto split: if_splits)

lemma parse_int_part_length: "parse_int_part cs = Some (ip, r) \<Longrightarrow> length r < length cs"
  by (cases cs) (auto simp: parse_int_part_def le_imp_less_Suc length_dropWhile_le split: if_splits)

lemma parse_frac_part_length: "parse_frac_part cs = Some (fp, r) \<Longrightarrow> length r \<le> length cs"
  by (cases cs) (auto simp: parse_frac_part_def le_SucI length_dropWhile_le split: if_splits)

lemma parse_exp_digits_length: "parse_exp_digits b cs = Some (ex, r) \<Longrightarrow> length r \<le> length cs"
  by (auto simp: parse_exp_digits_def length_dropWhile_le split: if_splits)

lemma parse_exp_part_length: "parse_exp_part cs = Some (ex, r) \<Longrightarrow> length r \<le> length cs"
  by (cases cs)
     (auto simp: parse_exp_part_def le_SucI split: if_splits list.splits
           dest!: parse_exp_digits_length)

lemma parse_unsigned_length: "parse_unsigned b cs = Some (v, r) \<Longrightarrow> length r < length cs"
  by (auto simp: parse_unsigned_def split: option.splits
        dest!: parse_int_part_length parse_frac_part_length parse_exp_part_length)

lemma parse_number_length: "parse_number cs = Some (v, r) \<Longrightarrow> length r < length cs"
  by (cases cs) (auto simp: parse_number_def less_SucI split: if_splits dest!: parse_unsigned_length)

subsection \<open>The parser never runs out of fuel\<close>

lemma of_option_fuel:
  "of_option x \<noteq> OutOfFuel"
  "of_option x = Accept v r \<longleftrightarrow> x = Some (v, r)"
  by (auto simp: of_option_def split: option.splits)

text \<open>The branches of \<open>parse_value\<close> that do not recurse.\<close>

lemma parse_scalar_length:
  "parse_scalar c r \<noteq> OutOfFuel
   \<and> (\<forall>v r'. parse_scalar c r = Accept v r' \<longrightarrow> length r' < Suc (length r))"
proof -
  have a: "of_option (map_option (\<lambda>(s, rest). (JStr s, rest)) (parse_chars r)) = Accept v r'
           \<Longrightarrow> length r' < Suc (length r)" for v r'
    by (auto simp: of_option_fuel dest!: parse_chars_length)
  have b: "of_option (map_option (\<lambda>rest. (x, rest)) (strip_prefix p r)) = Accept v r'
           \<Longrightarrow> length r' < Suc (length r)" for v r' and x :: json and p
    by (auto simp: of_option_fuel dest!: strip_prefix_length)
  have c: "of_option (parse_number (c # r)) = Accept v r' \<Longrightarrow> length r' < Suc (length r)" for v r'
    by (auto simp: of_option_fuel dest!: parse_number_length)
  show ?thesis
    by (auto simp: parse_scalar_def of_option_fuel(1) dest: a b c split: if_splits)
qed


lemma parse_fuel:
  "(2 * length cs < n \<longrightarrow>
      parse_value n cs \<noteq> OutOfFuel
      \<and> (\<forall>v r. parse_value n cs = Accept v r \<longrightarrow> length r < length cs))
   \<and> (2 * length cs + 1 < n \<longrightarrow>
      parse_elems n cs acc \<noteq> OutOfFuel
      \<and> (\<forall>v r. parse_elems n cs acc = Accept v r \<longrightarrow> length r < length cs))
   \<and> (2 * length cs + 1 < n \<longrightarrow>
      parse_members n cs acc' \<noteq> OutOfFuel
      \<and> (\<forall>v r. parse_members n cs acc' = Accept v r \<longrightarrow> length r < length cs))"
proof (induction n arbitrary: cs acc acc')
  case 0
  show ?case by simp
next
  case (Suc n)
  have val: "parse_value n xs \<noteq> OutOfFuel"
    "parse_value n xs = Accept v r \<Longrightarrow> length r < length xs"
    if "2 * length xs < n" for xs v r
    using Suc [of xs] that by blast+
  have elems: "parse_elems n xs a \<noteq> OutOfFuel"
    "parse_elems n xs a = Accept v r \<Longrightarrow> length r < length xs"
    if "2 * length xs + 1 < n" for xs a v r
    using Suc [of xs a] that by blast+
  have membs: "parse_members n xs a \<noteq> OutOfFuel"
    "parse_members n xs a = Accept v r \<Longrightarrow> length r < length xs"
    if "2 * length xs + 1 < n" for xs a v r
    using Suc [of xs _ a] that by blast+
  have 1: "parse_value (Suc n) cs \<noteq> OutOfFuel
      \<and> (\<forall>v r. parse_value (Suc n) cs = Accept v r \<longrightarrow> length r < length cs)"
    if f: "2 * length cs < Suc n"
  proof (cases "skip_ws cs")
    case Nil
    then show ?thesis by (simp add: parse_value.simps)
  next
    case (Cons c r)
    note r = skip_ws_length [OF Cons]
    with f have fr: "2 * length r + 1 < n" by simp
    note m = membs [OF fr] and e = elems [OF fr]
    consider (obj) "c = ch CHR ''{''" | (arr) "c \<noteq> ch CHR ''{''" "c = ch CHR ''[''"
      | (scalar) "c \<noteq> ch CHR ''{''" "c \<noteq> ch CHR ''[''"
      by blast
    then show ?thesis
    proof cases
      case obj
      show ?thesis
      proof (cases "skip_ws r")
        case Nil
        with Cons obj show ?thesis by (simp add: parse_value.simps)
      next
        case c2: (Cons d r')
        note r' = skip_ws_length [OF c2]
        from Cons obj c2 r r' show ?thesis
          by (auto simp: parse_value.simps m(1) dest!: m(2))
      qed
    next
      case arr
      show ?thesis
      proof (cases "skip_ws r")
        case Nil
        with Cons arr show ?thesis by (simp add: parse_value.simps)
      next
        case c2: (Cons d r')
        note r' = skip_ws_length [OF c2]
        from Cons arr c2 r r' show ?thesis
          by (auto simp: parse_value.simps e(1) dest!: e(2))
      qed
    next
      case scalar
      have eq: "parse_value (Suc n) cs = parse_scalar c r"
        using Cons scalar by (simp add: parse_value.simps)
      show ?thesis
      proof (intro conjI allI impI)
        show "parse_value (Suc n) cs \<noteq> OutOfFuel"
          using parse_scalar_length [of c r] by (simp add: eq)
      next
        fix v r'
        assume "parse_value (Suc n) cs = Accept v r'"
        with parse_scalar_length [of c r] have "length r' < Suc (length r)"
          by (simp add: eq)
        with r show "length r' < length cs" by simp
      qed
    qed
  qed
  have 2: "parse_elems (Suc n) cs acc \<noteq> OutOfFuel
      \<and> (\<forall>v r. parse_elems (Suc n) cs acc = Accept v r \<longrightarrow> length r < length cs)"
    if f: "2 * length cs + 1 < Suc n"
  proof (cases "parse_value n cs")
    case Reject
    then show ?thesis by (simp add: parse_elems.simps)
  next
    case OutOfFuel
    with val(1) [of cs] f show ?thesis by simp
  next
    case (Accept v r)
    with val(2) [of cs v r] f have r: "length r < length cs" by simp
    show ?thesis
    proof (cases "skip_ws r")
      case Nil
      with Accept show ?thesis by (simp add: parse_elems.simps)
    next
      case (Cons d r')
      note r' = skip_ws_length [OF Cons]
      with r f have "2 * length r' + 1 < n" by simp
      note e = elems [OF this]
      from Accept Cons r r' show ?thesis
        by (auto simp: parse_elems.simps e(1) dest!: e(2))
    qed
  qed
  have 3: "parse_members (Suc n) cs acc' \<noteq> OutOfFuel
      \<and> (\<forall>v r. parse_members (Suc n) cs acc' = Accept v r \<longrightarrow> length r < length cs)"
    if f: "2 * length cs + 1 < Suc n"
  proof (cases "skip_ws cs")
    case Nil
    then show ?thesis by (simp add: parse_members.simps)
  next
    case (Cons q r)
    note r = skip_ws_length [OF Cons]
    show ?thesis
    proof (cases "parse_chars r")
      case None
      with Cons show ?thesis by (simp add: parse_members.simps)
    next
      case (Some kr)
      obtain k r1 where kr: "kr = (k, r1)" by (cases kr)
      note r1 = parse_chars_length [OF Some [unfolded kr]]
      show ?thesis
      proof (cases "skip_ws r1")
        case Nil
        with Cons Some kr show ?thesis by (simp add: parse_members.simps)
      next
        case c2: (Cons colon r2)
        note r2 = skip_ws_length [OF c2]
        from r r1 r2 f have f2: "2 * length r2 < n" by simp
        show ?thesis
        proof (cases "parse_value n r2")
          case Reject
          with Cons Some kr c2 show ?thesis by (simp add: parse_members.simps)
        next
          case OutOfFuel
          with val(1) [OF f2] show ?thesis by simp
        next
          case (Accept v r3)
          note r3 = val(2) [OF f2 Accept]
          show ?thesis
          proof (cases "skip_ws r3")
            case Nil
            with Cons Some kr c2 Accept show ?thesis by (simp add: parse_members.simps)
          next
            case c4: (Cons d r4)
            note r4 = skip_ws_length [OF c4]
            with r r1 r2 r3 f have "2 * length r4 + 1 < n" by simp
            note m = membs [OF this]
            from Cons Some kr c2 Accept c4 r r1 r2 r3 r4 show ?thesis
              by (auto simp: parse_members.simps m(1) dest!: m(2))
          qed
        qed
      qed
    qed
  qed
  from 1 2 3 show ?case by blast
qed

lemma parse_value_fuel: "parse_value (2 * length s + 1) s \<noteq> OutOfFuel"
  using parse_fuel [of s "2 * length s + 1"] by simp

subsection \<open>Evaluating the digits of a numeral\<close>

lemma nat_digits_numeral [simp]:
  "nat_digits (numeral n) =
     (if (numeral n :: nat) < 10 then [digit_char (numeral n)]
      else nat_digits (numeral n div 10) @ [digit_char (numeral n mod 10)])"
  by (rule nat_digits.simps)

lemma strip_zeros_numeral [simp]:
  "strip_zeros (numeral n) e =
     (if (numeral n :: nat) mod 10 = 0 then strip_zeros (numeral n div 10) (e + 1) else (numeral n, e))"
  by (subst strip_zeros.simps) simp


lemma nat_digits_small [simp]: "nat_digits 0 = [0x30]" "nat_digits (Suc 0) = [0x31]"
  by (simp_all add: nat_digits.simps digit_char_def)

lemma strip_zeros_small [simp]: "strip_zeros 0 e = (0, e)" "strip_zeros (Suc 0) e = (Suc 0, e)"
  by (simp_all add: strip_zeros.simps)

section \<open>\<open>JSON.parse\<close> reads back what \<open>JSON.stringify\<close> writes\<close>

subsection \<open>Numbers\<close>

lemma takeWhile_digits:
  "\<forall>c \<in> set ds. is_digit c \<Longrightarrow> number_end rest \<Longrightarrow> takeWhile is_digit (ds @ rest) = ds"
  by (cases rest) (auto simp: number_end_def)

lemma dropWhile_digits:
  "\<forall>c \<in> set ds. is_digit c \<Longrightarrow> number_end rest \<Longrightarrow> dropWhile is_digit (ds @ rest) = rest"
  by (cases rest) (auto simp: number_end_def)

lemma strip_zeros_props:
  "0 < s \<Longrightarrow> strip_zeros s e = (s', e') \<Longrightarrow>
   0 < s' \<and> s' mod 10 \<noteq> 0 \<and> e \<le> e' \<and> s = s' * 10 ^ nat (e' - e)"
proof (induction s e rule: strip_zeros.induct)
  case (1 s e)
  show ?case
  proof (cases "s mod 10 = 0")
    case True
    with 1(2) have pos: "0 < s div 10" by (auto simp: div_greater_zero_iff dvd_imp_le mod_eq_0_iff_dvd)
    from True 1(2,3) have "strip_zeros (s div 10) (e + 1) = (s', e')"
      by (simp add: strip_zeros.simps [of s e])
    from 1(1) [OF _ pos this] True 1(2)
    have ih: "0 < s'" "s' mod 10 \<noteq> 0" "e + 1 \<le> e'" "s div 10 = s' * 10 ^ nat (e' - (e + 1))"
      by auto
    from ih(3) have "nat (e' - e) = Suc (nat (e' - (e + 1)))" by simp
    moreover from True have "s = s div 10 * 10" by auto
    ultimately show ?thesis using ih by simp
  next
    case False
    with 1(2,3) show ?thesis by (simp add: strip_zeros.simps [of s e])
  qed
qed

lemma digit_val_zero: "digit_val 0x30 = 0"
  by (simp add: digit_val_def)

lemma digits_val_Cons_zero: "digits_val (0x30 # ds) = digits_val ds"
  by (simp add: digits_val_def digit_val_zero)

lemma digits_val_zeros_prefix: "digits_val (replicate j 0x30 @ ds) = digits_val ds"
  by (induction j) (simp_all add: digits_val_Cons_zero)

lemma digits_val_append_zeros: "digits_val (ds @ replicate j 0x30) = digits_val ds * 10 ^ j"
proof (induction j)
  case 0
  show ?case by simp
next
  case (Suc j)
  have "ds @ replicate (Suc j) 0x30 = (ds @ replicate j 0x30) @ [0x30]"
    by (simp add: replicate_append_same)
  with Suc show ?case by (simp only: digits_val_snoc digit_val_zero) simp
qed

lemma while_digits:
  assumes "\<forall>c \<in> set ds. is_digit c" and "r = [] \<or> \<not> is_digit (hd r)"
  shows "takeWhile is_digit (ds @ r) = ds" and "dropWhile is_digit (ds @ r) = r"
  using assms by (cases r; auto)+

lemma parse_int_part_digits:
  assumes "ds \<noteq> []" and "\<forall>c \<in> set ds. is_digit c" and "hd ds \<noteq> 0x30"
    and "r = [] \<or> \<not> is_digit (hd r)"
  shows "parse_int_part (ds @ r) = Some (ds, r)"
proof -
  from assms(1) obtain d ds' where ds: "ds = d # ds'" by (cases ds) auto
  with assms(2,3) have d: "is_digit d" "d \<noteq> 0x30" by auto
  have "parse_int_part (ds @ r) = Some (takeWhile is_digit (ds @ r), dropWhile is_digit (ds @ r))"
    using d by (simp add: parse_int_part_def ds)
  with while_digits [OF assms(2,4)] show ?thesis by simp
qed

lemma parse_frac_part_none:
  "r = [] \<or> hd r \<noteq> ch CHR ''.'' \<Longrightarrow> parse_frac_part r = Some ([], r)"
  by (cases r) (auto simp: parse_frac_part_def)

lemma parse_frac_part_digits:
  assumes "fs \<noteq> []" and "\<forall>c \<in> set fs. is_digit c" and "r = [] \<or> \<not> is_digit (hd r)"
  shows "parse_frac_part (ch CHR ''.'' # fs @ r) = Some (fs, r)"
  using while_digits [OF assms(2,3)] assms(1) by (simp add: parse_frac_part_def)

lemma parse_exp_part_none:
  "r = [] \<or> (hd r \<noteq> ch CHR ''e'' \<and> hd r \<noteq> ch CHR ''E'') \<Longrightarrow> parse_exp_part r = Some (0, r)"
  by (cases r) (auto simp: parse_exp_part_def)

lemma not_digit_signs: "\<not> is_digit (ch CHR ''+'')" "\<not> is_digit (ch CHR ''-'')"
  "\<not> is_digit (ch CHR ''.'')" "\<not> is_digit (ch CHR ''e'')"
  "ch CHR ''e'' \<noteq> ch CHR ''.''" "ch CHR ''+'' \<noteq> ch CHR ''-''"
  by (simp_all add: is_digit_def ch_def)

lemma parse_exp_part_digits:
  assumes "r = [] \<or> \<not> is_digit (hd r)"
  shows "parse_exp_part (ch CHR ''e'' # ch CHR ''+'' # nat_digits x @ r) = Some (int x, r)"
    and "parse_exp_part (ch CHR ''e'' # ch CHR ''-'' # nat_digits x @ r) = Some (- int x, r)"
  using while_digits [OF nat_digits_all_digits assms] nat_digits_nonempty [of x]
  by (simp_all add: parse_exp_part_def parse_exp_digits_def digits_val_nat_digits not_digit_signs)

lemma number_end_cases:
  assumes "number_end r"
  shows "r = [] \<or> \<not> is_digit (hd r)" "r = [] \<or> hd r \<noteq> ch CHR ''.''"
    "r = [] \<or> (hd r \<noteq> ch CHR ''e'' \<and> hd r \<noteq> ch CHR ''E'')"
  using assms by (cases r; simp add: number_end_def)+

lemma hd_take_nat_digits:
  "0 < s \<Longrightarrow> 0 < n \<Longrightarrow> take n (nat_digits s) \<noteq> [] \<and> hd (take n (nat_digits s)) \<noteq> 0x30"
  using hd_nat_digits [of s] nat_digits_nonempty [of s] by (cases "nat_digits s"; cases n) auto

lemma set_take_digits: "\<forall>c \<in> set (take n (nat_digits s)). is_digit c"
  using nat_digits_all_digits [of s] by (auto dest: in_set_takeD)

lemma set_drop_digits: "\<forall>c \<in> set (drop n (nat_digits s)). is_digit c"
  using nat_digits_all_digits [of s] by (auto dest: in_set_dropD)

lemma is_digit_zero: "is_digit 0x30"
  by (simp add: is_digit_def)


lemma parse_unsigned_positive:
  assumes s: "0 < s" and r: "number_end rest"
  shows "parse_unsigned neg (positive_to_string s e @ rest) = Some (unsigned_literal neg s e, rest)"
proof -
  let ?ds = "nat_digits s"
  let ?k = "int (length ?ds)"
  let ?n = "?k + e"
  note nd = number_end_cases [OF r]
  have k: "0 < ?k" using nat_digits_nonempty [of s] by simp
  have dv: "digits_val ?ds = s" by (rule digits_val_nat_digits)
  have all: "\<forall>c \<in> set ?ds. is_digit c" by (rule nat_digits_all_digits)
  have hd: "hd ?ds \<noteq> 0x30" using hd_nat_digits [OF s] .
  have exp_form:
    "parse_unsigned neg ((if ?k = 1 then ?ds else take 1 ?ds @ ch CHR ''.'' # drop 1 ?ds)
        @ ch CHR ''e'' # sg # nat_digits x @ rest)
     = Some (JNum ((if neg then - 1 else 1) * int s) (ex - (?k - 1)), rest)"
    if pe: "parse_exp_part (ch CHR ''e'' # sg # nat_digits x @ rest) = Some (ex, rest)"
    for sg x ex
  proof (cases "?k = 1")
    case True
    have ip: "parse_int_part (?ds @ ch CHR ''e'' # sg # nat_digits x @ rest)
              = Some (?ds, ch CHR ''e'' # sg # nat_digits x @ rest)"
      using all hd nat_digits_nonempty [of s]
      by (intro parse_int_part_digits) (simp_all add: not_digit_signs)
    show ?thesis
      using True ip pe
      by (simp add: parse_unsigned_def parse_frac_part_def not_digit_signs dv)
  next
    case False
    with k have n: "(0::nat) < 1" "1 < length ?ds"
      by (cases "nat_digits s"; simp)+
    let ?i = "take 1 ?ds" and ?f = "drop 1 ?ds"
    have ip: "parse_int_part (?i @ ch CHR ''.'' # ?f @ ch CHR ''e'' # sg # nat_digits x @ rest)
              = Some (?i, ch CHR ''.'' # ?f @ ch CHR ''e'' # sg # nat_digits x @ rest)"
      using hd_take_nat_digits [OF s n(1)] set_take_digits [of 1 s]
      by (intro parse_int_part_digits) (simp_all add: not_digit_signs hd)
    have fp: "parse_frac_part (ch CHR ''.'' # ?f @ ch CHR ''e'' # sg # nat_digits x @ rest)
              = Some (?f, ch CHR ''e'' # sg # nat_digits x @ rest)"
      using n set_drop_digits [of 1 s]
      by (intro parse_frac_part_digits) (simp_all add: not_digit_signs)
    have "digits_val (?i @ ?f) = s" by (simp add: dv)
    moreover have "int (length ?f) = ?k - 1" using n by simp
    ultimately show ?thesis
      using False ip fp pe by (simp add: parse_unsigned_def)
  qed
  consider (A) "0 \<le> e" "?n \<le> 21" | (B) "e < 0" "0 < ?n" "?n \<le> 21"
    | (C) "- 6 < ?n" "?n \<le> 0" | (D) "21 < ?n" | (E) "?n \<le> - 6"
    by linarith
  then show ?thesis
  proof cases
    case A
    let ?zs = "replicate (nat e) (0x30 :: jschar)"
    have ptxt: "positive_to_string s e = ?ds @ ?zs"
      using A by (simp add: positive_to_string_def Let_def ch_def)
    have ip: "parse_int_part ((?ds @ ?zs) @ rest) = Some (?ds @ ?zs, rest)"
      using all hd nat_digits_nonempty [of s] nd(1)
      by (intro parse_int_part_digits) (auto simp: is_digit_zero)
    show ?thesis
      unfolding ptxt parse_unsigned_def ip
      using A by (simp add: parse_frac_part_none [OF nd(2)] parse_exp_part_none [OF nd(3)]
          digits_val_append_zeros dv unsigned_literal_def)
  next
    case B
    let ?i = "take (nat ?n) ?ds" and ?f = "drop (nat ?n) ?ds"
    have ptxt: "positive_to_string s e = ?i @ ch CHR ''.'' # ?f"
      using B by (simp add: positive_to_string_def Let_def)
    from B have n: "0 < nat ?n" "nat ?n < length ?ds" by simp_all
    have f: "?f \<noteq> []" "int (length ?f) = - e" using n B by simp_all
    have ip: "parse_int_part (?i @ ch CHR ''.'' # ?f @ rest) = Some (?i, ch CHR ''.'' # ?f @ rest)"
      using hd_take_nat_digits [OF s n(1)] set_take_digits [of "nat ?n" s]
      by (intro parse_int_part_digits) (simp_all add: not_digit_signs hd)
    have fp: "parse_frac_part (ch CHR ''.'' # ?f @ rest) = Some (?f, rest)"
      using f(1) set_drop_digits [of "nat ?n" s] nd(1) by (intro parse_frac_part_digits)
    have "digits_val (?i @ ?f) = s" by (simp add: dv)
    then show ?thesis
      unfolding ptxt parse_unsigned_def
      using ip fp f(2) B by (simp add: parse_exp_part_none [OF nd(3)] unsigned_literal_def)
  next
    case C
    let ?zs = "replicate (nat (- ?n)) (0x30 :: jschar)"
    have e: "e < 0" using C k by linarith
    have ptxt: "positive_to_string s e = 0x30 # ch CHR ''.'' # ?zs @ ?ds"
      using C e by (simp add: positive_to_string_def Let_def ch_def)
    have ip: "parse_int_part (0x30 # ch CHR ''.'' # ?zs @ ?ds @ rest)
              = Some ([0x30], ch CHR ''.'' # ?zs @ ?ds @ rest)"
      by (simp add: parse_int_part_def)
    have fp: "parse_frac_part (ch CHR ''.'' # (?zs @ ?ds) @ rest) = Some (?zs @ ?ds, rest)"
      using all nd(1) nat_digits_nonempty [of s]
      by (intro parse_frac_part_digits) (auto simp: is_digit_zero)
    have dv': "digits_val ([0x30] @ ?zs @ ?ds) = s"
      using digits_val_zeros_prefix [of "Suc (nat (- ?n))" ?ds] by (simp add: dv)
    have len: "int (length (?zs @ ?ds)) = - e" using C by simp
    show ?thesis
      unfolding ptxt parse_unsigned_def
      using ip fp dv' len e k
      by (simp add: parse_exp_part_none [OF nd(3)] unsigned_literal_def)
  next
    case D
    then have ex: "nat \<bar>?n - 1\<bar> = nat (?n - 1)" "\<not> ?n - 1 < 0" by simp_all
    from D exp_form [OF parse_exp_part_digits(1) [OF nd(1)], of "nat (?n - 1)"]
    show ?thesis
      by (simp add: positive_to_string_def Let_def ex unsigned_literal_def)
  next
    case E
    then have ex: "nat \<bar>?n - 1\<bar> = nat (1 - ?n)" "?n - 1 < 0" by simp_all
    from E exp_form [OF parse_exp_part_digits(2) [OF nd(1)], of "nat (1 - ?n)"] k
    show ?thesis
      by (simp add: positive_to_string_def Let_def ex unsigned_literal_def)
  qed
qed

lemma positive_to_string_head:
  assumes "0 < s"
  shows "\<exists>c cs. positive_to_string s e = c # cs \<and> is_digit c"
proof -
  obtain d ds where ds: "nat_digits s = d # ds"
    using nat_digits_nonempty [of s] by (cases "nat_digits s") auto
  with nat_digits_all_digits [of s] have d: "is_digit d" by simp
  have t: "0 < n \<Longrightarrow> take n (d # ds) = d # take (n - 1) ds" for n by (cases n) simp_all
  show ?thesis
    using d by (auto simp: positive_to_string_def Let_def ds is_digit_zero ch_def t)
qed

lemma parse_number_printed:
  assumes "number_end rest"
  shows "parse_number (number_to_string m e @ rest) = Some (printed_literal m e, rest)"
proof (cases "m = 0")
  case True
  note nd = number_end_cases [OF assms]
  have "parse_unsigned False (0x30 # rest) = Some (JNum 0 0, rest)"
    by (simp add: parse_unsigned_def parse_int_part_def parse_frac_part_none [OF nd(2)]
        parse_exp_part_none [OF nd(3)] digits_val_def digit_val_zero)
  with True show ?thesis
    by (simp add: number_to_string_def printed_literal_def parse_number_def ch_def)
next
  case False
  obtain s e' where se: "strip_zeros (nat \<bar>m\<bar>) e = (s, e')" by (cases "strip_zeros (nat \<bar>m\<bar>) e")
  from False have "0 < nat \<bar>m\<bar>" by simp
  from strip_zeros_props [OF this se] have s: "0 < s" by simp
  note pu = parse_unsigned_positive [OF s assms, of _ e']
  from positive_to_string_head [OF s, of e'] obtain c cs where
    c: "positive_to_string s e' = c # cs" "is_digit c" by blast
  then have nm: "c \<noteq> ch CHR ''-''" using not_digit_signs(2) by auto
  show ?thesis
  proof (cases "m < 0")
    case True
    then have "sgn m = - 1" by simp
    moreover from se True have "strip_zeros (nat (- m)) e = (s, e')" by simp
    ultimately show ?thesis
      using True False pu [of True]
      by (simp add: number_to_string_def printed_literal_def parse_number_def
          unsigned_literal_def)
  next
    case pos: False
    with False have "sgn m = 1" by simp
    moreover have "parse_number (positive_to_string s e' @ rest)
                   = parse_unsigned False (positive_to_string s e' @ rest)"
      using nm by (simp add: c(1) parse_number_def)
    moreover from se pos have "strip_zeros (nat m) e = (s, e')" by simp
    ultimately show ?thesis
      using pos False pu [of False]
      by (simp add: number_to_string_def printed_literal_def unsigned_literal_def)
  qed
qed

subsection \<open>Values\<close>

lemma number_to_string_head:
  "\<exists>c cs. number_to_string m e = c # cs \<and> (is_digit c \<or> c = ch CHR ''-'')"
proof (cases "m = 0")
  case True
  then show ?thesis by (simp add: number_to_string_def is_digit_zero ch_def)
next
  case False
  obtain s e' where se: "strip_zeros (nat \<bar>m\<bar>) e = (s, e')" by (cases "strip_zeros (nat \<bar>m\<bar>) e")
  from False have "0 < nat \<bar>m\<bar>" by simp
  from strip_zeros_props [OF this se] have s: "0 < s" by simp
  from positive_to_string_head [OF s, of e'] se False show ?thesis
    by (auto simp: number_to_string_def)
qed

lemma parse_value_number:
  assumes "is_digit c \<or> c = ch CHR ''-''"
  shows "parse_value (Suc n) (c # r) = of_option (parse_number (c # r))"
proof -
  from assms have "\<not> is_json_ws c" "c \<noteq> ch CHR ''{''" "c \<noteq> ch CHR ''[''" "c \<noteq> 0x22"
    "c \<noteq> ch CHR ''t''" "c \<noteq> ch CHR ''f''" "c \<noteq> ch CHR ''n''"
    by (auto simp: is_digit_def is_json_ws_def ch_def)
  then show ?thesis
    by (subst parse_value.simps) (simp add: skip_ws_Cons parse_scalar_def)
qed

lemma parse_value_null:
  "parse_value (Suc n) (js ''null'' @ rest) = Accept JNull rest"
  by (subst parse_value.simps)
     (simp add: js_def ch_def skip_ws_def is_json_ws_def parse_scalar_def of_option_def)

lemma parse_value_true:
  "parse_value (Suc n) (js ''true'' @ rest) = Accept (JBool True) rest"
  by (subst parse_value.simps)
     (simp add: js_def ch_def skip_ws_def is_json_ws_def parse_scalar_def of_option_def)

lemma parse_value_false:
  "parse_value (Suc n) (js ''false'' @ rest) = Accept (JBool False) rest"
  by (subst parse_value.simps)
     (simp add: js_def ch_def skip_ws_def is_json_ws_def parse_scalar_def of_option_def)

lemma parse_value_printed:
  assumes "number_end rest"
  shows "parse_value (Suc n) (number_to_string m e @ rest) = Accept (printed_literal m e) rest"
proof -
  from number_to_string_head [of m e] obtain c cs where
    c: "number_to_string m e = c # cs" "is_digit c \<or> c = ch CHR ''-''" by blast
  have "parse_value (Suc n) (c # cs @ rest) = of_option (parse_number (c # cs @ rest))"
    by (rule parse_value_number [OF c(2)])
  with parse_number_printed [OF assms, of m e] show ?thesis
    by (simp add: c(1) of_option_def)
qed

lemma number_head_plain:
  "is_digit c \<or> c = ch CHR ''-'' \<Longrightarrow> \<not> is_json_ws c \<and> c \<noteq> ch CHR '']''"
  by (auto simp: is_digit_def is_json_ws_def ch_def)

lemma stringify_head:
  "\<exists>c cs. JSON_stringify rt v = c # cs \<and> \<not> is_json_ws c \<and> c \<noteq> ch CHR '']''"
proof (cases v)
  case (JNum m e)
  show ?thesis
  proof (cases "number_of rt m e")
    case (Fin a b)
    from number_to_string_head [of a b] obtain c cs where
      "number_to_string a b = c # cs" "is_digit c \<or> c = ch CHR ''-''" by blast
    with number_head_plain [of c] JNum Fin show ?thesis by simp
  qed (simp_all add: JNum js_def ch_def is_json_ws_def)
qed (simp_all add: js_def ch_def is_json_ws_def JSON_quote_def)

lemma skip_ws_stringify:
  "\<exists>c cs. skip_ws (JSON_stringify rt v @ r) = c # cs \<and> c # cs = JSON_stringify rt v @ r
           \<and> c \<noteq> ch CHR '']''"
  using stringify_head [of rt v] by (auto simp: skip_ws_Cons)

lemma number_end_delims:
  "number_end (ch CHR '','' # r)" "number_end (ch CHR '']'' # r)" "number_end (ch CHR ''}'' # r)"
  "number_end []"
  by (simp_all add: number_end_def is_digit_def ch_def)

lemma skip_ws_delims:
  "skip_ws (ch CHR '','' # r) = ch CHR '','' # r" "skip_ws (ch CHR '']'' # r) = ch CHR '']'' # r"
  "skip_ws (ch CHR ''}'' # r) = ch CHR ''}'' # r" "skip_ws (ch CHR '':'' # r) = ch CHR '':'' # r"
  "skip_ws (0x22 # r) = 0x22 # r"
  by (simp_all add: skip_ws_def is_json_ws_def ch_def)

lemma delims_distinct:
  "ch CHR '']'' \<noteq> ch CHR '',''" "ch CHR ''}'' \<noteq> ch CHR '',''" "ch CHR '':'' \<noteq> ch CHR '',''"
  "0x22 \<noteq> ch CHR '']''" "0x22 \<noteq> ch CHR ''}''" "0x22 \<noteq> ch CHR ''{''" "0x22 \<noteq> ch CHR ''[''"
  "ch CHR ''['' \<noteq> ch CHR ''{''"
  by (simp_all add: ch_def)

text \<open>The elements of an array, after the opening bracket.\<close>

lemma parse_elems_stringify:
  assumes ih: "\<forall>x \<in> set xs. \<forall>n rest. number_end rest \<longrightarrow>
      parse_value n (JSON_stringify rt x @ rest) = OutOfFuel
      \<or> parse_value n (JSON_stringify rt x @ rest) = Accept (reread rt x) rest"
    and ne: "xs \<noteq> []"
  shows "parse_elems n (comma_join (map (JSON_stringify rt) xs) @ ch CHR '']'' # rest) acc = OutOfFuel
     \<or> parse_elems n (comma_join (map (JSON_stringify rt) xs) @ ch CHR '']'' # rest) acc
        = Accept (JArr (acc @ map (reread rt) xs)) rest"
  using assms
proof (induction xs arbitrary: n acc)
  case Nil
  then show ?case by simp
next
  case (Cons x xs)
  show ?case
  proof (cases n)
    case 0
    then show ?thesis by (simp add: parse_elems.simps)
  next
    case (Suc k)
    show ?thesis
    proof (cases xs)
      case Nil
      from Cons.prems(1)
      have "parse_value k (JSON_stringify rt x @ ch CHR '']'' # rest) = OutOfFuel
          \<or> parse_value k (JSON_stringify rt x @ ch CHR '']'' # rest)
            = Accept (reread rt x) (ch CHR '']'' # rest)"
        by (simp add: number_end_delims)
      then show ?thesis
        unfolding Suc Nil
        by (subst (1 2) parse_elems.simps) (auto simp: skip_ws_delims delims_distinct)
    next
      case (Cons y ys)
      let ?tail = "comma_join (map (JSON_stringify rt) xs) @ ch CHR '']'' # rest"
      have txt': "comma_join (map (JSON_stringify rt) (x # xs)) @ ch CHR '']'' # rest
                = JSON_stringify rt x @ ch CHR '','' # ?tail"
        by (simp add: Cons)
      from Cons.prems(1)
      have v: "parse_value k (JSON_stringify rt x @ ch CHR '','' # ?tail) = OutOfFuel
          \<or> parse_value k (JSON_stringify rt x @ ch CHR '','' # ?tail)
            = Accept (reread rt x) (ch CHR '','' # ?tail)"
        by (simp add: number_end_delims)
      have r: "parse_elems k ?tail (acc @ [reread rt x]) = OutOfFuel
          \<or> parse_elems k ?tail (acc @ [reread rt x])
            = Accept (JArr ((acc @ [reread rt x]) @ map (reread rt) xs)) rest"
        using Cons.prems(1) Cons by (intro Cons.IH) auto
      from v r show ?thesis
        unfolding Suc txt'
        by (subst (1 2) parse_elems.simps) (auto simp: skip_ws_delims delims_distinct)
    qed
  qed
qed

text \<open>The members of an object, after the opening brace.\<close>

lemma parse_members_stringify:
  assumes ih: "\<forall>p \<in> set ms. \<forall>n rest. number_end rest \<longrightarrow>
      parse_value n (JSON_stringify rt (snd p) @ rest) = OutOfFuel
      \<or> parse_value n (JSON_stringify rt (snd p) @ rest) = Accept (reread rt (snd p)) rest"
    and ne: "ms \<noteq> []"
  shows "parse_members n
           (comma_join (map member_text (map (map_prod id (JSON_stringify rt)) ms)) @ ch CHR ''}'' # rest)
           acc = OutOfFuel
     \<or> parse_members n
           (comma_join (map member_text (map (map_prod id (JSON_stringify rt)) ms)) @ ch CHR ''}'' # rest)
           acc
        = Accept (JObj (foldl (\<lambda>acc p. set_property acc (fst p) (snd p)) acc
                          (map (map_prod id (reread rt)) ms))) rest"
  using assms
proof (induction ms arbitrary: n acc)
  case Nil
  then show ?case by simp
next
  case (Cons p ms)
  obtain k v where p: "p = (k, v)" by (cases p)
  have member: "parse_members (Suc j) (member_text (k, JSON_stringify rt v) @ tail) acc
      = (case parse_value j (JSON_stringify rt v @ tail) of
           Reject \<Rightarrow> Reject
         | OutOfFuel \<Rightarrow> OutOfFuel
         | Accept v' r3 \<Rightarrow>
             (case skip_ws r3 of
                [] \<Rightarrow> Reject
              | d # r4 \<Rightarrow>
                  if d = ch CHR '','' then parse_members j r4 (set_property acc k v')
                  else if d = ch CHR ''}'' then Accept (JObj (set_property acc k v')) r4
                  else Reject))" for j tail acc
    by (subst parse_members.simps)
       (simp add: member_text_def JSON_quote_def skip_ws_delims parse_chars_quote_chars)
  show ?case
  proof (cases n)
    case 0
    then show ?thesis by (simp add: parse_members.simps)
  next
    case (Suc j)
    show ?thesis
    proof (cases ms)
      case Nil
      from Cons.prems(1)
      have "parse_value j (JSON_stringify rt v @ ch CHR ''}'' # rest) = OutOfFuel
          \<or> parse_value j (JSON_stringify rt v @ ch CHR ''}'' # rest)
            = Accept (reread rt v) (ch CHR ''}'' # rest)"
        by (simp add: number_end_delims p)
      then show ?thesis
        unfolding Suc Nil p
        by (auto simp: member skip_ws_delims delims_distinct)
    next
      case (Cons q qs)
      let ?tail = "comma_join (map member_text (map (map_prod id (JSON_stringify rt)) ms))
                     @ ch CHR ''}'' # rest"
      have txt': "comma_join (map member_text (map (map_prod id (JSON_stringify rt)) (p # ms)))
                   @ ch CHR ''}'' # rest
                = member_text (k, JSON_stringify rt v) @ ch CHR '','' # ?tail"
        by (simp add: Cons p)
      from Cons.prems(1)
      have v: "parse_value j (JSON_stringify rt v @ ch CHR '','' # ?tail) = OutOfFuel
          \<or> parse_value j (JSON_stringify rt v @ ch CHR '','' # ?tail)
            = Accept (reread rt v) (ch CHR '','' # ?tail)"
        by (simp add: number_end_delims p)
      have r: "parse_members j ?tail (set_property acc k (reread rt v)) = OutOfFuel
          \<or> parse_members j ?tail (set_property acc k (reread rt v))
            = Accept (JObj (foldl (\<lambda>acc p. set_property acc (fst p) (snd p))
                              (set_property acc k (reread rt v))
                              (map (map_prod id (reread rt)) ms))) rest"
        using Cons.prems(1) Cons by (intro Cons.IH) auto
      from v r show ?thesis
        unfolding Suc txt'
        by (auto simp: member skip_ws_delims delims_distinct p id_def)
    qed
  qed
qed

lemma parse_value_array:
  "parse_value (Suc k) (ch CHR ''['' # r)
   = (case skip_ws r of
        [] \<Rightarrow> Reject
      | d # r' \<Rightarrow> if d = ch CHR '']'' then Accept (JArr []) r' else parse_elems k r [])"
  by (subst parse_value.simps) (simp add: skip_ws_Cons is_json_ws_def ch_def)

lemma parse_value_object:
  "parse_value (Suc k) (ch CHR ''{'' # r)
   = (case skip_ws r of
        [] \<Rightarrow> Reject
      | d # r' \<Rightarrow> if d = ch CHR ''}'' then Accept (JObj []) r' else parse_members k r [])"
  by (subst parse_value.simps) (simp add: skip_ws_Cons is_json_ws_def ch_def)

lemma parse_stringify:
  "number_end rest \<Longrightarrow>
   parse_value n (JSON_stringify rt v @ rest) = OutOfFuel
   \<or> parse_value n (JSON_stringify rt v @ rest) = Accept (reread rt v) rest"
proof (induction v arbitrary: n rest)
  case JNull
  then show ?case by (cases n) (simp_all add: parse_value.simps(1) parse_value_null)
next
  case (JBool b)
  then show ?case by (cases n) (simp_all add: parse_value.simps(1) parse_value_true parse_value_false)
next
  case (JNum m e)
  then show ?case
    by (cases n; cases "number_of rt m e")
       (simp_all add: parse_value.simps(1) parse_value_null parse_value_printed)
next
  case JPosInf
  then show ?case by (cases n) (simp_all add: parse_value.simps(1) parse_value_null)
next
  case JNegInf
  then show ?case by (cases n) (simp_all add: parse_value.simps(1) parse_value_null)
next
  case JNaN
  then show ?case by (cases n) (simp_all add: parse_value.simps(1) parse_value_null)
next
  case (JStr s)
  then show ?case
    by (cases n) (simp_all add: parse_value.simps(1) JSON_quote_def parse_value_quoted)
next
  case (JArr xs)
  show ?case
  proof (cases n)
    case 0
    then show ?thesis by (simp add: parse_value.simps(1))
  next
    case (Suc k)
    show ?thesis
    proof (cases xs)
      case Nil
      show ?thesis
        unfolding Suc Nil
        by (simp add: parse_value_array skip_ws_delims)
    next
      case (Cons y ys)
      then have ne: "xs \<noteq> []" by simp
      let ?r = "comma_join (map (JSON_stringify rt) xs) @ ch CHR '']'' # rest"
      from Cons obtain r' where r': "?r = JSON_stringify rt y @ r'"
        by (cases ys) auto
      from skip_ws_stringify [of rt y r'] obtain c cs where
        c: "skip_ws ?r = c # cs" "?r = c # cs" "c \<noteq> ch CHR '']''"
        unfolding r' by metis
      have ih: "\<forall>x \<in> set xs. \<forall>n rest. number_end rest \<longrightarrow>
          parse_value n (JSON_stringify rt x @ rest) = OutOfFuel
          \<or> parse_value n (JSON_stringify rt x @ rest) = Accept (reread rt x) rest"
        using JArr.IH by blast
      have "parse_value (Suc k) (JSON_stringify rt (JArr xs) @ rest) = parse_elems k ?r []"
        using c by (simp add: parse_value_array)
      with parse_elems_stringify [OF ih ne, of k rest "[]"] show ?thesis
        by (simp add: Suc)
    qed
  qed
next
  case (JObj ms)
  show ?case
  proof (cases n)
    case 0
    then show ?thesis by (simp add: parse_value.simps(1))
  next
    case (Suc k)
    show ?thesis
    proof (cases ms)
      case Nil
      show ?thesis
        unfolding Suc Nil
        by (simp add: parse_value_object skip_ws_delims object_of_def)
    next
      case (Cons q qs)
      then have ne: "ms \<noteq> []" by simp
      let ?r = "comma_join (map member_text (map (map_prod id (JSON_stringify rt)) ms))
                  @ ch CHR ''}'' # rest"
      from Cons obtain r' where r': "?r = 0x22 # r'"
        by (cases qs) (auto simp: member_text_def JSON_quote_def)
      have ih: "\<forall>p \<in> set ms. \<forall>n rest. number_end rest \<longrightarrow>
          parse_value n (JSON_stringify rt (snd p) @ rest) = OutOfFuel
          \<or> parse_value n (JSON_stringify rt (snd p) @ rest) = Accept (reread rt (snd p)) rest"
      proof (intro ballI allI impI)
        fix p n rest assume "p \<in> set ms" "number_end rest"
        moreover have "snd p \<in> Basic_BNFs.snds p" by (cases p) simp
        ultimately show "parse_value n (JSON_stringify rt (snd p) @ rest) = OutOfFuel
          \<or> parse_value n (JSON_stringify rt (snd p) @ rest) = Accept (reread rt (snd p)) rest"
          using JObj.IH by blast
      qed
      have "parse_value (Suc k) (JSON_stringify rt (JObj ms) @ rest) = parse_members k ?r []"
        using r' by (simp add: parse_value_object skip_ws_delims delims_distinct)
      with parse_members_stringify [OF ih ne, of k rest "[]"] show ?thesis
        by (simp add: Suc object_of_def)
    qed
  qed
qed

theorem JSON_parse_stringify: "JSON_parse (JSON_stringify rt v) = Some (reread rt v)"
proof -
  from parse_stringify [of "[]" "2 * length (JSON_stringify rt v) + 1" rt v]
    parse_value_fuel [of "JSON_stringify rt v"]
  have "parse_value (2 * length (JSON_stringify rt v) + 1) (JSON_stringify rt v)
        = Accept (reread rt v) []"
    by (simp add: number_end_delims)
  then show ?thesis by (simp add: JSON_parse_def skip_ws_def)
qed

section \<open>Numbers and conversions\<close>

lemma strip_zeros_value:
  "strip_zeros s e = (s', e') \<Longrightarrow> e \<le> e' \<and> s = s' * 10 ^ nat (e' - e)"
proof (induction s e rule: strip_zeros.induct)
  case (1 s e)
  show ?case
  proof (cases "s \<noteq> 0 \<and> s mod 10 = 0")
    case True
    with 1(2) have "strip_zeros (s div 10) (e + 1) = (s', e')"
      by (simp add: strip_zeros.simps [of s e])
    from 1(1) [OF True this] have ih: "e + 1 \<le> e'" "s div 10 = s' * 10 ^ nat (e' - (e + 1))"
      by auto
    from ih(1) have "nat (e' - e) = Suc (nat (e' - (e + 1)))" by simp
    moreover from True have "s = s div 10 * 10" by auto
    ultimately show ?thesis using ih by simp
  next
    case False
    with 1(2) show ?thesis by (auto simp: strip_zeros.simps [of s e])
  qed
qed

lemma exact_decimal_int:
  assumes "\<bar>i\<bar> \<le> 9007199254740992"
  shows "exact_decimal i 0"
proof -
  obtain s e' where se: "strip_zeros (nat \<bar>i\<bar>) 0 = (s, e')" by (cases "strip_zeros (nat \<bar>i\<bar>) 0")
  from strip_zeros_value [OF se] have v: "0 \<le> e'" "nat \<bar>i\<bar> = s * 10 ^ nat e'" by simp_all
  from v(2) have "int s * 10 ^ nat e' = \<bar>i\<bar>"
    by (metis (mono_tags) nat_0_le abs_ge_zero of_nat_mult of_nat_numeral of_nat_power)
  with assms v(1) show ?thesis by (simp add: exact_decimal_def se)
qed

lemma number_of_int [simp]:
  "\<bar>i\<bar> \<le> 9007199254740992 \<Longrightarrow> number_of rt i 0 = Fin i 0"
  by (simp add: number_of_def exact_decimal_int)

lemma dec_int [simp]:
  "dec_less_int m 0 c \<longleftrightarrow> m < c" "dec_greater_int m 0 c \<longleftrightarrow> c < m"
  by (simp_all add: dec_less_int_def dec_greater_int_def)

lemma is_time_value_int: "is_time_value (Fin x 0) \<longleftrightarrow> \<bar>x\<bar> \<le> MAX_TIME"
  by auto

lemma to_number_fails_toISOString:
  "to_number rt (Some v) = Inl e \<Longrightarrow> \<exists>e'. toISOString rt v = Inl e'"
  by (auto simp: to_number_def toISOString_def split: sum.splits primitive.splits)

lemma join_elems_error:
  "length rs = length xs \<Longrightarrow> join_elems xs rs = Inl e \<Longrightarrow> Inl e \<in> set rs"
proof (induction xs rs rule: join_elems.induct)
  case (1 x xs r rs)
  then show ?case
    by (cases xs) (auto split: sum.splits json.splits)
qed simp_all

lemma to_string_error: "to_string rt v = Inl e \<Longrightarrow> e = JsError"
proof (induction v)
  case (JArr xs)
  from JArr.prems have "Inl e \<in> set (map (to_string rt) xs)"
    by (intro join_elems_error) simp_all
  with JArr.IH show ?case by auto
qed (auto split: if_splits)

lemma primitive_of_error: "primitive_of rt v = Inl e \<Longrightarrow> e = JsError"
  using to_string_error [of rt v e]
  by (cases v) (auto simp del: to_string.simps split: sum.splits)

lemma to_number_error: "to_number rt v = Inl e \<Longrightarrow> e = JsError"
  by (auto simp: to_number_def split: option.splits sum.splits primitive.splits
      dest: primitive_of_error)

lemma toISOString_error: "toISOString rt v = Inl e \<Longrightarrow> e = JsError"
  by (auto simp: toISOString_def split: sum.splits primitive.splits if_splits
      dest: primitive_of_error)

lemma isValid_error: "isValid rt ti now = Inl e \<Longrightarrow> e = JsError"
  by (auto simp: isValid_def now_toISOString_def split: if_splits sum.splits
      dest: to_number_error toISOString_error)

lemma nat_digits_times_ten: "0 < s \<Longrightarrow> nat_digits (s * 10) = nat_digits s @ [0x30]"
  by (subst nat_digits.simps) (simp add: digit_char_def)

lemma nat_digits_times_pow: "0 < s \<Longrightarrow> nat_digits (s * 10 ^ j) = nat_digits s @ replicate j 0x30"
proof (induction j)
  case 0
  show ?case by simp
next
  case (Suc j)
  from Suc.prems have "0 < s * 10 ^ j" by simp
  from nat_digits_times_ten [OF this] Suc show ?case
    by (simp add: mult.assoc replicate_append_same mult.commute [of 10])
qed

lemma length_nat_digits_le: "n < 10 ^ d \<Longrightarrow> 0 < d \<Longrightarrow> length (nat_digits n) \<le> d"
proof (induction n arbitrary: d rule: nat_digits.induct)
  case (1 n)
  show ?case
  proof (cases "n < 10")
    case True
    with 1(3) show ?thesis by (simp add: nat_digits.simps [of n])
  next
    case False
    with 1(2) have d: "1 < d" by (cases d; cases "d - 1") auto
    then obtain d' where d': "d = Suc d'" "0 < d'" by (cases d) auto
    with 1(2) have "n div 10 < 10 ^ d'" by (simp add: less_mult_imp_div_less mult.commute)
    from 1(1) [OF False this d'(2)] False d' show ?thesis
      by (simp add: nat_digits.simps [of n])
  qed
qed

lemma number_to_string_int:
  assumes "\<bar>i\<bar> < 10 ^ 21"
  shows "number_to_string i 0 = int_to_string i"
proof (cases "i = 0")
  case True
  then show ?thesis by (simp add: number_to_string_def int_to_string_def ch_def)
next
  case False
  obtain s e' where se: "strip_zeros (nat \<bar>i\<bar>) 0 = (s, e')" by (cases "strip_zeros (nat \<bar>i\<bar>) 0")
  from False have pos: "0 < nat \<bar>i\<bar>" by simp
  from strip_zeros_props [OF pos se] have v: "0 < s" "0 \<le> e'" "nat \<bar>i\<bar> = s * 10 ^ nat e'"
    by simp_all
  have nd: "nat_digits (nat \<bar>i\<bar>) = nat_digits s @ replicate (nat e') 0x30"
    unfolding v(3) by (rule nat_digits_times_pow [OF v(1)])
  from assms have "nat \<bar>i\<bar> < 10 ^ 21" by (simp add: nat_less_iff)
  from length_nat_digits_le [OF this] nd v(2)
  have "int (length (nat_digits s)) + e' \<le> 21" by simp
  with v(2) have "positive_to_string s e' = nat_digits (nat \<bar>i\<bar>)"
    by (simp add: positive_to_string_def Let_def nd ch_def)
  with False se show ?thesis
    by (auto simp: number_to_string_def int_to_string_def)
qed

lemma printed_literal_int:
  assumes "\<bar>i\<bar> < 10 ^ 21"
  shows "printed_literal i 0 = JNum i 0"
proof (cases "i = 0")
  case True
  then show ?thesis by (simp add: printed_literal_def)
next
  case False
  obtain s e' where se: "strip_zeros (nat \<bar>i\<bar>) 0 = (s, e')" by (cases "strip_zeros (nat \<bar>i\<bar>) 0")
  from False have pos: "0 < nat \<bar>i\<bar>" by simp
  from strip_zeros_props [OF pos se] have v: "0 < s" "0 \<le> e'" "nat \<bar>i\<bar> = s * 10 ^ nat e'"
    by simp_all
  have nd: "nat_digits (nat \<bar>i\<bar>) = nat_digits s @ replicate (nat e') 0x30"
    unfolding v(3) by (rule nat_digits_times_pow [OF v(1)])
  from assms have "nat \<bar>i\<bar> < 10 ^ 21" by (simp add: nat_less_iff)
  from length_nat_digits_le [OF this] nd v(2)
  have le: "int (length (nat_digits s)) + e' \<le> 21" by simp
  from v(3) have "int s * 10 ^ nat e' = \<bar>i\<bar>"
    by (metis (mono_tags) nat_0_le abs_ge_zero of_nat_mult of_nat_numeral of_nat_power)
  then have "sgn i * int s * 10 ^ nat e' = i"
    by (simp add: mult.assoc mult_sgn_abs)
  with False se v(2) le show ?thesis by (simp add: printed_literal_def)
qed

lemma printed_literal_frac:
  assumes "\<not> 10 dvd m" and "e < 0"
  shows "printed_literal m e = JNum m e"
proof -
  from assms(1) have m: "m \<noteq> 0" by auto
  from assms(1) have "\<not> 10 dvd nat \<bar>m\<bar>"
    by (metis dvd_abs_iff int_dvd_int_iff nat_0_le abs_ge_zero of_nat_numeral)
  then have "strip_zeros (nat \<bar>m\<bar>) e = (nat \<bar>m\<bar>, e)"
    by (simp add: strip_zeros.simps [of "nat \<bar>m\<bar>" e] mod_eq_0_iff_dvd)
  with m assms(2) show ?thesis
    by (simp add: printed_literal_def mult_sgn_abs)
qed

lemma reread_int [simp]: "\<bar>i\<bar> \<le> 9007199254740992 \<Longrightarrow> reread rt (JNum i 0) = JNum i 0"
  by (simp add: printed_literal_int)

lemma JSON_stringify_int:
  "\<bar>i\<bar> \<le> 9007199254740992 \<Longrightarrow> JSON_stringify rt (JNum i 0) = int_to_string i"
  by (simp add: number_to_string_int)

lemma toISOString_int:
  "\<bar>x\<bar> \<le> 9007199254740992 \<Longrightarrow>
   toISOString rt (JNum x 0) = (if \<bar>x\<bar> \<le> MAX_TIME then Inr () else Inl JsError)"
  by (auto simp: toISOString_def)


section \<open>Credential validity\<close>




section \<open>The credential store\<close>

lemma not_index_alpha: "k \<noteq> [] \<Longrightarrow> \<not> is_digit (hd k) \<Longrightarrow> \<not> is_array_index k"
  by (cases k) (auto simp: is_array_index_def)

lemma token_keys:
  "js ''token'' \<noteq> js ''expire''" "\<not> is_array_index (js ''token'')" "\<not> is_array_index (js ''expire'')"
  by (simp_all add: js_def ch_def is_array_index_def is_digit_def)

lemma object_of_two:
  "k1 \<noteq> k2 \<Longrightarrow> \<not> is_array_index k1 \<Longrightarrow> \<not> is_array_index k2 \<Longrightarrow>
   object_of [(k1, a), (k2, b)] = [(k1, a), (k2, b)]"
  by (simp add: object_of_def set_property_def)

lemma object_of_one: "\<not> is_array_index k \<Longrightarrow> object_of [(k, a)] = [(k, a)]"
  by (simp add: object_of_def set_property_def)

lemma stringify_nonempty: "JSON_stringify rt v \<noteq> []"
  using stringify_head [of rt v] by auto

lemma JSON_parse_token_object:
  "JSON_parse (JSON_stringify rt (JObj [(js ''token'', a), (js ''expire'', b)]))
   = Some (JObj [(js ''token'', reread rt a), (js ''expire'', reread rt b)])"
  unfolding JSON_parse_stringify by (simp add: object_of_two token_keys)

lemma loaded_log_empty [simp]: "loaded_log rt empty_TokenInfo now = Inr ()"
  by (simp add: loaded_log_def empty_TokenInfo_def new_TokenInfo_def or_null_def isValid_def)

lemma empty_TokenInfo_fields:
  "empty_TokenInfo = \<lparr>token = JNull, expire = JNull\<rparr>"
  by (simp add: empty_TokenInfo_def new_TokenInfo_def or_null_def)


lemma loaded_log_error: "loaded_log rt ti now = Inl e \<Longrightarrow> e = JsError"
  by (auto simp: loaded_log_def split: if_splits sum.splits dest: toISOString_error isValid_error)




subsection \<open>Corrupted entries\<close>





subsection \<open>Saving and loading\<close>

lemma isValid_no_error:
  "toISOString rt (expire ti) = Inr () \<Longrightarrow> \<bar>now\<bar> \<le> MAX_TIME \<Longrightarrow> \<exists>b. isValid rt ti now = Inr b"
  using to_number_fails_toISOString [of rt "expire ti"]
  by (auto simp: isValid_def now_toISOString_def split: sum.splits)

lemma loaded_log_ok:
  "toISOString rt (expire ti) = Inr () \<Longrightarrow> \<bar>now\<bar> \<le> MAX_TIME \<Longrightarrow> loaded_log rt ti now = Inr ()"
  using isValid_no_error [of rt ti now] by (auto simp: loaded_log_def)

lemma stringify_token_eq:
  "\<bar>e\<bar> \<le> 9007199254740992 \<Longrightarrow>
   JSON_stringify rt (JObj [(js ''token'', JStr t), (js ''expire'', JNum e 0)]) = stringify_token t e"
  by (simp add: stringify_token_def member_text_def number_to_string_int)

text \<open>
  Claim C8, as stated: for every credential with both fields present, \<open>save()\<close>
  followed by \<open>fromRedis()\<close> gives the saved pair back. Two credentials show
  that this is not what the code does. \<open>save\<close> refuses a credential whose token
  is the empty string (or whose expiry is 0): nothing is stored, and loading from
  the store, empty before, gives the empty credential. With the expiry \<open>10^16\<close>,
  which is no time value, \<open>save\<close> writes the entry and then raises, on the
  \<open>toISOString\<close> in the arguments of its \<open>log.info\<close>; \<open>fromRedis\<close> finds
  the entry and raises in the same way.
\<close>

theorem save_fromRedis_present_counterexample:
  "token \<lparr>token = JStr [], expire = JNum 10 0\<rparr> \<noteq> JNull
   \<and> expire \<lparr>token = JStr [], expire = JNum 10 0\<rparr> \<noteq> JNull
   \<and> save plain_runtime \<lparr>token = JStr [], expire = JNum 10 0\<rparr> token_key DEFAULT_TTL 0
        \<lparr>entries = Map.empty, faults = no_faults\<rparr>
       = (Inl RedisError, \<lparr>entries = Map.empty, faults = no_faults\<rparr>)
   \<and> fromRedis plain_runtime token_key 0 \<lparr>entries = Map.empty, faults = no_faults\<rparr>
       = (Inr \<lparr>token = JNull, expire = JNull\<rparr>, \<lparr>entries = Map.empty, faults = no_faults\<rparr>)
   \<and> (\<exists>text.
         save plain_runtime \<lparr>token = JStr (js ''Bearer x''), expire = JNum 10000000000000000 0\<rparr>
            token_key DEFAULT_TTL 0 \<lparr>entries = Map.empty, faults = no_faults\<rparr>
           = (Inl RedisError, \<lparr>entries = [token_key \<mapsto> (text, 3600000)], faults = no_faults\<rparr>)
         \<and> fromRedis plain_runtime token_key 0 \<lparr>entries = [token_key \<mapsto> (text, 3600000)], faults = no_faults\<rparr>
           = (Inl RedisError, \<lparr>entries = [token_key \<mapsto> (text, 3600000)], faults = no_faults\<rparr>))"
proof -
  let ?ti = "\<lparr>token = JStr (js ''Bearer x''), expire = JNum 10000000000000000 0\<rparr>"
  let ?text = "JSON_stringify plain_runtime (JObj [(js ''token'', token ?ti), (js ''expire'', expire ?ti)])"
  have ex: "exact_decimal 10000000000000000 0" by (simp add: exact_decimal_def)
  then have n: "number_of plain_runtime 10000000000000000 0 = Fin 10000000000000000 0"
    by (simp add: number_of_def)
  have iso: "toISOString plain_runtime (JNum 10000000000000000 0) = Inl JsError"
    by (simp add: toISOString_def n MAX_TIME_def)
  have lit: "printed_literal 10000000000000000 0 = JNum 10000000000000000 0"
    by (simp add: printed_literal_int)
  have p: "JSON_parse ?text = Some (JObj [(js ''token'', JStr (js ''Bearer x'')),
                                     (js ''expire'', JNum 10000000000000000 0)])"
    using JSON_parse_token_object [of plain_runtime "JStr (js ''Bearer x'')" "JNum 10000000000000000 0"]
    by (simp add: n lit)
  have ne: "?text \<noteq> []" by (rule stringify_nonempty)
  have b: "js ''Bearer x'' \<noteq> []" by (simp add: js_def)
  have s: "save plain_runtime ?ti token_key DEFAULT_TTL 0 \<lparr>entries = Map.empty, faults = no_faults\<rparr>
           = (Inl RedisError, \<lparr>entries = [token_key \<mapsto> (?text, 3600000)], faults = no_faults\<rparr>)"
    using b by (simp add: save_def save_body_def redis_set_def n iso DEFAULT_TTL_def
        del: JSON_stringify.simps)
  have l: "fromRedis plain_runtime token_key 0 \<lparr>entries = [token_key \<mapsto> (?text, 3600000)], faults = no_faults\<rparr>
           = (Inl RedisError, \<lparr>entries = [token_key \<mapsto> (?text, 3600000)], faults = no_faults\<rparr>)"
    using ne p
    by (simp add: fromRedis_def fromRedis_body_def redis_get_def token_keys
        token_keys(1) [symmetric] new_TokenInfo_def or_null_def loaded_log_def n iso
        del: JSON_stringify.simps)
  have e: "save plain_runtime \<lparr>token = JStr [], expire = JNum 10 0\<rparr> token_key DEFAULT_TTL 0
        \<lparr>entries = Map.empty, faults = no_faults\<rparr>
       = (Inl RedisError, \<lparr>entries = Map.empty, faults = no_faults\<rparr>)"
    "fromRedis plain_runtime token_key 0 \<lparr>entries = Map.empty, faults = no_faults\<rparr>
       = (Inr \<lparr>token = JNull, expire = JNull\<rparr>, \<lparr>entries = Map.empty, faults = no_faults\<rparr>)"
    by (simp_all add: save_def save_body_def fromRedis_def fromRedis_body_def redis_get_def
        empty_TokenInfo_fields)
  from s l e show ?thesis by auto
qed

text \<open>
  Claim C8, amended. With a working store and a positive time-to-live, \<open>save()\<close>
  succeeds and a \<open>fromRedis()\<close> at any time before the entry expires (in
  particular immediately) returns the saved token and expiry, for every credential
  whose two fields are truthy, whose expiry is a time value (so that the
  \<open>toISOString\<close> calls succeed) and whose fields \<open>JSON.parse\<close> reads back
  as they were written (\<open>reread\<close> leaves them as they are: they hold no number
  that is not finite, and their numerals and objects have the form in which
  \<open>JSON.parse\<close> yields them). In particular this holds for every token that is
  a non-empty string and every expiry that is an integer other than 0 of a
  magnitude up to \<open>8.64 * 10^15\<close>.
\<close>

theorem save_fromRedis_roundtrip:
  assumes "0 < ttl" and "\<forall>op. \<not> faults r op" and "now \<le> now'" and "now' < now + ttl * 1000"
    and "\<bar>now'\<bar> \<le> MAX_TIME"
  shows "(truthy rt (token ti) \<and> truthy rt (expire ti) \<and> toISOString rt (expire ti) = Inr ()
          \<and> reread rt (token ti) = token ti \<and> reread rt (expire ti) = expire ti \<longrightarrow>
          (\<exists>r'. save rt ti key ttl now r = (Inr (), r') \<and> fromRedis rt key now' r' = (Inr ti, r')))
       \<and> (\<forall>t x. ti = \<lparr>token = JStr t, expire = JNum x 0\<rparr> \<and> t \<noteq> [] \<and> x \<noteq> 0 \<and> \<bar>x\<bar> \<le> MAX_TIME \<longrightarrow>
          (\<exists>r'. save rt ti key ttl now r = (Inr (), r') \<and> fromRedis rt key now' r' = (Inr ti, r')))"
proof -
  let ?text = "JSON_stringify rt (JObj [(js ''token'', token ti), (js ''expire'', expire ti)])"
  let ?r = "r\<lparr>entries := (entries r)(key \<mapsto> (?text, now + ttl * 1000))\<rparr>"
  have g: "save rt ti key ttl now r = (Inr (), ?r) \<and> fromRedis rt key now' ?r = (Inr ti, ?r)"
    if h: "truthy rt (token ti)" "truthy rt (expire ti)" "toISOString rt (expire ti) = Inr ()"
      "reread rt (token ti) = token ti" "reread rt (expire ti) = expire ti"
  proof -
    have s: "save rt ti key ttl now r = (Inr (), ?r)"
      using assms h by (simp add: save_def save_body_def redis_set_def del: JSON_stringify.simps)
    have ne: "?text \<noteq> []" by (rule stringify_nonempty)
    have p: "JSON_parse ?text = Some (JObj [(js ''token'', token ti), (js ''expire'', expire ti)])"
      using JSON_parse_token_object [of rt "token ti" "expire ti"] h by simp
    have eta: "\<lparr>token = token ti, expire = expire ti\<rparr> = ti" by simp
    have l: "fromRedis rt key now' ?r = (Inr ti, ?r)"
      using assms ne p loaded_log_ok [OF h(3) assms(5)]
      by (simp add: eta fromRedis_def fromRedis_body_def redis_get_def token_keys
          token_keys(1) [symmetric] new_TokenInfo_def or_null_def
          del: JSON_stringify.simps)
    from s l show ?thesis by simp
  qed
  have typed: "truthy rt (token ti) \<and> truthy rt (expire ti) \<and> toISOString rt (expire ti) = Inr ()
          \<and> reread rt (token ti) = token ti \<and> reread rt (expire ti) = expire ti"
    if "ti = \<lparr>token = JStr t, expire = JNum x 0\<rparr>" "t \<noteq> []" "x \<noteq> 0" "\<bar>x\<bar> \<le> MAX_TIME" for t x
    using that by (simp add: MAX_TIME_def toISOString_int printed_literal_int)
  from g typed show ?thesis by blast
qed

theorem save_fromRedis_roundtrip_witness:
  "\<exists>r'. save plain_runtime \<lparr>token = JStr (js ''Bearer abc''), expire = JNum 1700000000000 0\<rparr> token_key
            DEFAULT_TTL 1000 \<lparr>entries = Map.empty, faults = no_faults\<rparr> = (Inr (), r')
        \<and> fromRedis plain_runtime token_key 1000 r'
            = (Inr \<lparr>token = JStr (js ''Bearer abc''), expire = JNum 1700000000000 0\<rparr>, r')"
  using save_fromRedis_roundtrip [of DEFAULT_TTL "\<lparr>entries = Map.empty, faults = no_faults\<rparr>"
      1000 1000 plain_runtime "\<lparr>token = JStr (js ''Bearer abc''), expire = JNum 1700000000000 0\<rparr>" token_key]
  by (simp add: js_def DEFAULT_TTL_def MAX_TIME_def)


subsection \<open>What \<open>save\<close> writes\<close>

text \<open>
  Claim C10: \<open>save()\<close> raises and writes nothing when the token or the expiry is
  absent (or falsy in another way); whenever \<open>save()\<close> changes the store, what it
  writes under the key is the JSON text of the object with the truthy \<open>token\<close> and
  \<open>expire\<close> of the credential, which \<open>JSON.parse\<close> reads as an object with
  these two fields. For a string token and an integer expiry this is the text of
  \<open>stringify_token\<close>, read back as it was. (\<open>save\<close> holds the only \<open>SET\<close> of
  the program.)
\<close>

theorem save_writes_both_fields:
  "(\<not> truthy rt (token ti) \<or> \<not> truthy rt (expire ti) \<longrightarrow>
      save rt ti key ttl now r = (Inl RedisError, r))
   \<and> (token ti = JNull \<or> expire ti = JNull \<longrightarrow> save rt ti key ttl now r = (Inl RedisError, r))
   \<and> (\<forall>res r'. save rt ti key ttl now r = (res, r') \<longrightarrow>
         r' = r
         \<or> (truthy rt (token ti) \<and> truthy rt (expire ti)
             \<and> r' = r\<lparr>entries := (entries r)(key \<mapsto>
                        (JSON_stringify rt (JObj [(js ''token'', token ti), (js ''expire'', expire ti)]),
                         now + ttl * 1000))\<rparr>
             \<and> JSON_parse (JSON_stringify rt (JObj [(js ''token'', token ti), (js ''expire'', expire ti)]))
                 = Some (JObj [(js ''token'', reread rt (token ti)),
                               (js ''expire'', reread rt (expire ti))])))
   \<and> (\<forall>t e. token ti = JStr t \<and> expire ti = JNum e 0 \<and> \<bar>e\<bar> \<le> 9007199254740992 \<longrightarrow>
         JSON_stringify rt (JObj [(js ''token'', token ti), (js ''expire'', expire ti)])
           = stringify_token t e
         \<and> JSON_parse (stringify_token t e)
             = Some (JObj [(js ''token'', JStr t), (js ''expire'', JNum e 0)]))"
proof -
  have a: "\<not> truthy rt (token ti) \<or> \<not> truthy rt (expire ti) \<Longrightarrow>
      save rt ti key ttl now r = (Inl RedisError, r)"
    by (auto simp: save_def save_body_def)
  have b: "token ti = JNull \<or> expire ti = JNull \<Longrightarrow> save rt ti key ttl now r = (Inl RedisError, r)"
    by (auto simp: save_def save_body_def)
  have c: "r' = r
         \<or> (truthy rt (token ti) \<and> truthy rt (expire ti)
             \<and> r' = r\<lparr>entries := (entries r)(key \<mapsto>
                        (JSON_stringify rt (JObj [(js ''token'', token ti), (js ''expire'', expire ti)]),
                         now + ttl * 1000))\<rparr>)"
    if "save rt ti key ttl now r = (res, r')" for res r'
    using that
    by (auto simp: save_def save_body_def redis_set_def split: if_splits sum.splits)
  have d: "JSON_stringify rt (JObj [(js ''token'', token ti), (js ''expire'', expire ti)])
           = stringify_token t e
         \<and> JSON_parse (stringify_token t e)
             = Some (JObj [(js ''token'', JStr t), (js ''expire'', JNum e 0)])"
    if "token ti = JStr t" "expire ti = JNum e 0" "\<bar>e\<bar> \<le> 9007199254740992" for t e
    using JSON_parse_token_object [of rt "JStr t" "JNum e 0"] that
    by (simp add: printed_literal_int flip: stringify_token_eq [of e rt t])
  from a b c d JSON_parse_token_object [of rt "token ti" "expire ti"] show ?thesis
    by blast
qed

theorem save_writes_both_fields_witness:
  "save plain_runtime \<lparr>token = JNull, expire = JNum 1700000000000 0\<rparr> token_key DEFAULT_TTL 1000
        \<lparr>entries = Map.empty, faults = no_faults\<rparr>
   = (Inl RedisError, \<lparr>entries = Map.empty, faults = no_faults\<rparr>)"
  using save_writes_both_fields [of plain_runtime "\<lparr>token = JNull, expire = JNum 1700000000000 0\<rparr>" token_key
      DEFAULT_TTL 1000 "\<lparr>entries = Map.empty, faults = no_faults\<rparr>"]
  by simp

subsection \<open>Bodies that are not JSON, and the body of the token exchange\<close>

lemma JSON_parse_not_json:
  assumes "\<not> is_json_ws c" and "\<not> is_digit c"
    and "c \<noteq> 0x7B" "c \<noteq> 0x5B" "c \<noteq> 0x22" "c \<noteq> 0x74" "c \<noteq> 0x66" "c \<noteq> 0x6E" "c \<noteq> 0x2D"
  shows "JSON_parse (c # cs) = None"
proof -
  from assms(2) have "c \<noteq> 0x30" by (auto simp: is_digit_def)
  with assms have n: "parse_number (c # cs) = None"
    by (simp add: parse_number_def parse_unsigned_def parse_int_part_def ch_codes)
  have "parse_value (Suc (2 * length (c # cs))) (c # cs) = Reject"
    using assms n
    by (subst parse_value.simps)
       (simp add: skip_ws_Cons ch_codes parse_scalar_def of_option_def)
  then show ?thesis by (simp add: JSON_parse_def)
qed

lemma response_keys:
  "\<not> is_array_index (js ''Data'')" "\<not> is_array_index (js ''Token'')"
  "\<not> is_array_index (js ''Expire'')" "js ''Token'' \<noteq> js ''Expire''" "js ''Expire'' \<noteq> js ''Token''"
  by (simp_all add: js_def ch_def is_array_index_def is_digit_def)

lemma token_response_body_eq:
  "\<bar>e\<bar> \<le> 9007199254740992 \<Longrightarrow>
   token_response_body t e
   = JSON_stringify rt (JObj [(js ''Data'', JObj [(js ''Token'', JStr t), (js ''Expire'', JNum e 0)])])"
  by (simp add: token_response_body_def member_text_def number_to_string_int)

lemma JSON_parse_token_response:
  assumes "\<bar>e\<bar> \<le> 9007199254740992"
  shows "JSON_parse (token_response_body t e)
   = Some (JObj [(js ''Data'', JObj [(js ''Token'', JStr t), (js ''Expire'', JNum e 0)])])"
  unfolding token_response_body_eq [OF assms, of t plain_runtime] JSON_parse_stringify
  using assms by (simp add: object_of_two object_of_one response_keys printed_literal_int)

lemma fetchTokenByWxCode_token_response:
  assumes "c \<noteq> []" and "t \<noteq> []" and "e \<noteq> 0" and "\<bar>e\<bar> \<le> MAX_TIME"
    and "answers w (length (requests w)) = Response 200 (token_response_body t e)"
  shows "TokenInfo_fetchTokenByWxCode c w
         = (Inr \<lparr>token = JStr (js ''Bearer '' @ t), expire = JNum e 0\<rparr>,
            w\<lparr>requests := requests w @ [post_request (CHECKIN_AUTH c)]\<rparr>)"
proof -
  from assms(4) have r: "\<bar>e\<bar> \<le> 9007199254740992" by (simp add: MAX_TIME_def)
  from assms r show ?thesis
    by (simp add: TokenInfo_fetchTokenByWxCode_def fetchTokenByWxCode_def request_def fetch_def
        request_result_def response_ok_def JSON_parse_token_response optional_field_def
        response_keys toISOString_int)
qed

subsection \<open>The bodies of the status endpoint\<close>

lemma request_result_status_body:
  "request_result (Response 200 (status_body e c)) = Inr (JStr (status_body e c))"
proof -
  have "JSON_parse (status_body e c) = None"
    unfolding status_body_def js_def
    by (simp add: ch_def) (rule JSON_parse_not_json; simp add: is_json_ws_def is_digit_def)
  then show ?thesis by (simp add: request_result_def response_ok_def)
qed

lemma match_errcode_status_body: "match_errcode (status_body e c) = Some (nat_digits e)"
proof -
  have nd: "\<not> is_digit 0x3B" by (simp add: is_digit_def)
  show ?thesis
    by (simp add: status_body_def js_def ch_def takeWhile_nat_digits [OF nd] nat_digits_nonempty)
qed

lemma match_code_digits:
  "\<forall>d \<in> set ds. is_digit d \<Longrightarrow> match_code (ds @ rest) = match_code rest"
proof (induction ds)
  case Nil
  show ?case by simp
next
  case (Cons d ds)
  then have "d \<noteq> 0x77" by (auto simp: is_digit_def)
  with Cons show ?case by (simp add: js_def ch_def)
qed

lemma match_code_status_body:
  assumes "0x27 \<notin> set c"
  shows "match_code (status_body e c) = (if c = [] then None else Some c)"
proof -
  have t: "takeWhile (\<lambda>x. x \<noteq> 0x27) (c @ 0x27 # r) = c"
    "dropWhile (\<lambda>x. x \<noteq> 0x27) (c @ 0x27 # r) = 0x27 # r" for r
    using assms by (auto simp: takeWhile_tail dropWhile_append3)
  have tail: "match_code (js '';window.wx_code='' @ [0x27] @ c @ [0x27] @ js '';'')
              = (if c = [] then None else Some c)"
    using t by (simp add: js_def ch_def)
  have "match_code (status_body e c)
        = match_code (nat_digits e @ js '';window.wx_code='' @ [0x27] @ c @ [0x27] @ js '';'')"
    by (simp add: status_body_def js_def ch_def)
  with tail show ?thesis
    by (simp add: match_code_digits nat_digits_all_digits)
qed

lemma poll_decide_status_body:
  assumes "0x27 \<notin> set c"
  shows "poll_decide (request_result (Response 200 (status_body e c)))
         = (if e = 405 \<and> c \<noteq> [] then ReturnCode c
            else if e = 403 then ReturnNull
            else Continue 1000)"
  by (simp add: request_result_status_body poll_decide_def match_errcode_status_body
      match_code_status_body [OF assms] digits_val_nat_digits)

section \<open>Polling for the scan\<close>

lemma request_poll:
  "request rq w = (request_result (answers w (length (requests w))), w\<lparr>requests := requests w @ [rq]\<rparr>)"
  by (simp add: request_def fetch_def)

lemma poll_reply_step:
  "poll_reply (sleep ms (w\<lparr>requests := requests w @ [rq]\<rparr>)) i = poll_reply w (Suc i)"
  by (simp add: poll_reply_def sleep_def)

text \<open>
  The run of \<open>poll_loop\<close> from poll count \<open>polls\<close>: it issues \<open>k\<close> requests, the
  first \<open>k - 1\<close> of which decide to continue, and stops on the decision of the last
  one or, that one continuing too, because the count has reached \<open>maxPolls\<close>.
\<close>

lemma poll_loop_trace:
  "poll_loop uuid polls w = (res, w') \<Longrightarrow>
   \<exists>k. k \<le> maxPolls - polls
     \<and> requests w' = requests w @ replicate k (get_request (pollUrl uuid))
     \<and> (\<forall>i. Suc i < k \<longrightarrow> (\<exists>ms. poll_reply w i = Continue ms))
     \<and> (k = 0 \<longrightarrow> res = None \<and> maxPolls \<le> polls)
     \<and> (0 < k \<longrightarrow>
          (case poll_reply w (k - 1) of
             ReturnCode c \<Rightarrow> res = Some c
           | ReturnNull \<Rightarrow> res = None
           | Continue ms \<Rightarrow> res = None \<and> polls + k = maxPolls))"
proof (induction uuid polls w arbitrary: res w' rule: poll_loop.induct)
  case (1 uuid polls w)
  let ?rq = "get_request (pollUrl uuid)"
  let ?w1 = "w\<lparr>requests := requests w @ [?rq]\<rparr>"
  show ?case
  proof (cases "polls < maxPolls")
    case False
    with 1(2) have "res = None" "w' = w"
      by (simp_all add: poll_loop.simps [of uuid polls w])
    with False show ?thesis by (intro exI [of _ 0]) simp
  next
    case True
    have d0: "poll_decide (request_result (answers w (length (requests w)))) = poll_reply w 0"
      by (simp add: poll_reply_def)
    show ?thesis
    proof (cases "poll_reply w 0")
      case (ReturnCode c)
      with 1(2) True d0 have "res = Some c" "w' = ?w1"
        by (simp_all add: poll_loop.simps [of uuid polls w] request_poll)
      with True ReturnCode show ?thesis by (intro exI [of _ 1]) simp
    next
      case ReturnNull
      with 1(2) True d0 have "res = None" "w' = ?w1"
        by (simp_all add: poll_loop.simps [of uuid polls w] request_poll)
      with True ReturnNull show ?thesis by (intro exI [of _ 1]) simp
    next
      case (Continue ms)
      with 1(2) True d0 have run: "poll_loop uuid (Suc polls) (sleep ms ?w1) = (res, w')"
        by (simp add: poll_loop.simps [of uuid polls w] request_poll)
      from 1(1) [OF True request_poll [symmetric] _ run] Continue d0
      obtain k where k: "k \<le> maxPolls - Suc polls"
        and rq: "requests w' = requests (sleep ms ?w1) @ replicate k ?rq"
        and cont: "\<forall>i. Suc i < k \<longrightarrow> (\<exists>ms'. poll_reply (sleep ms ?w1) i = Continue ms')"
        and zero: "k = 0 \<longrightarrow> res = None \<and> maxPolls \<le> Suc polls"
        and last: "0 < k \<longrightarrow>
          (case poll_reply (sleep ms ?w1) (k - 1) of
             ReturnCode c \<Rightarrow> res = Some c
           | ReturnNull \<Rightarrow> res = None
           | Continue ms' \<Rightarrow> res = None \<and> Suc polls + k = maxPolls)"
        by auto
      have a: "Suc k \<le> maxPolls - polls" using k True by simp
      have b: "requests w' = requests w @ replicate (Suc k) ?rq"
        using rq by (simp add: sleep_def replicate_append_same)
      have c: "\<forall>i. Suc i < Suc k \<longrightarrow> (\<exists>ms'. poll_reply w i = Continue ms')"
      proof (intro allI impI)
        fix i assume i: "Suc i < Suc k"
        show "\<exists>ms'. poll_reply w i = Continue ms'"
        proof (cases i)
          case 0
          with Continue show ?thesis by simp
        next
          case (Suc j)
          with i cont have "\<exists>ms'. poll_reply (sleep ms ?w1) j = Continue ms'" by simp
          with Suc show ?thesis by (simp add: poll_reply_step)
        qed
      qed
      have d: "case poll_reply w (Suc k - 1) of
                 ReturnCode c \<Rightarrow> res = Some c
               | ReturnNull \<Rightarrow> res = None
               | Continue ms' \<Rightarrow> res = None \<and> polls + Suc k = maxPolls"
      proof (cases k)
        case 0
        with zero True Continue show ?thesis by simp
      next
        case (Suc j)
        with last have "case poll_reply w (Suc j) of
             ReturnCode c \<Rightarrow> res = Some c
           | ReturnNull \<Rightarrow> res = None
           | Continue ms' \<Rightarrow> res = None \<and> Suc polls + k = maxPolls"
          by (simp add: poll_reply_step)
        with Suc show ?thesis by (simp split: poll_decision.splits)
      qed
      from a b c d show ?thesis by (intro exI [of _ "Suc k"]) simp
    qed
  qed
qed

lemma pollWxCode_trace:
  assumes "uuid \<noteq> []"
  shows "\<exists>k res w'. pollWxCode uuid w = (Inr res, w')
     \<and> 1 \<le> k \<and> k \<le> 300
     \<and> requests w' = requests w @ replicate k (get_request (pollUrl uuid))
     \<and> (\<forall>i. Suc i < k \<longrightarrow> (\<exists>ms. poll_reply w i = Continue ms))
     \<and> (case poll_reply w (k - 1) of
           ReturnCode c \<Rightarrow> res = Some c
         | ReturnNull \<Rightarrow> res = None
         | Continue ms \<Rightarrow> res = None \<and> k = 300)"
proof -
  obtain res w' where run: "poll_loop uuid 0 w = (res, w')"
    by (cases "poll_loop uuid 0 w")
  from poll_loop_trace [OF run] obtain k where
    k: "k \<le> maxPolls" "requests w' = requests w @ replicate k (get_request (pollUrl uuid))"
      "\<forall>i. Suc i < k \<longrightarrow> (\<exists>ms. poll_reply w i = Continue ms)"
      "k = 0 \<longrightarrow> res = None \<and> maxPolls \<le> 0"
      "0 < k \<longrightarrow> (case poll_reply w (k - 1) of
             ReturnCode c \<Rightarrow> res = Some c
           | ReturnNull \<Rightarrow> res = None
           | Continue ms \<Rightarrow> res = None \<and> 0 + k = maxPolls)"
    by auto
  from k(4) have pos: "0 < k" by (auto simp: maxPolls_def)
  from assms run have "pollWxCode uuid w = (Inr res, w')"
    by (simp add: pollWxCode_def)
  with k pos show ?thesis
    by (intro exI [of _ k] exI [of _ res] exI [of _ w'])
       (auto simp: maxPolls_def split: poll_decision.splits)
qed

lemma poll_decide_cases:
  "poll_decide (Inl e) = Continue 2000"
  "poll_decide (Inr (JStr text)) =
     (if map_option digits_val (match_errcode text) = Some 405 \<and> match_code text \<noteq> None
        then ReturnCode (the (match_code text))
      else if map_option digits_val (match_errcode text) = Some 403 then ReturnNull
      else Continue 1000)"
  "\<forall>s. v \<noteq> JStr s \<Longrightarrow> poll_decide (Inr v) = Continue 2000"
  by (auto simp: poll_decide_def Let_def split: json.splits)


lemma requests_fresh_world: "requests (fresh_world a) = []"
  by (simp add: fresh_world_def)

text \<open>
  Claim C9: \<open>pollWxCode\<close> always returns, after at most 300 status requests (none
  when the UUID is empty, which raises at once). The polls before the last all
  decided to continue; the result is the code when the last poll saw the scanned
  signal, \<open>null\<close> when it saw the expired signal, and \<open>null\<close> after the 300th
  poll when that one continues too. On the replies of the status endpoint
  (\<open>window.wx_errcode=N;window.wx_code='C';\<close>) a poll returns the code \<open>C\<close> for status
  405 with a non-empty code, returns \<open>null\<close> for status 403 and continues for
  every other status, for 405 without a code included; it continues as well on a
  transport failure, on an HTTP error status and on any reply that is not a string.
\<close>

theorem pollWxCode_terminates:
  "(uuid = [] \<longrightarrow> pollWxCode uuid w = (Inl (AppError ''MISSING_UUID''), w))
   \<and> (uuid \<noteq> [] \<longrightarrow>
        (\<exists>k res w'. pollWxCode uuid w = (Inr res, w')
           \<and> 1 \<le> k \<and> k \<le> 300
           \<and> requests w' = requests w @ replicate k (get_request (pollUrl uuid))
           \<and> (\<forall>i. Suc i < k \<longrightarrow> (\<exists>ms. poll_reply w i = Continue ms))
           \<and> (case poll_reply w (k - 1) of
                 ReturnCode c \<Rightarrow> res = Some c
               | ReturnNull \<Rightarrow> res = None
               | Continue ms \<Rightarrow> res = None \<and> k = 300)))
   \<and> (\<forall>n c. 0x27 \<notin> set c \<longrightarrow>
         poll_decide (request_result (Response 200 (status_body n c)))
         = (if n = 405 \<and> c \<noteq> [] then ReturnCode c
            else if n = 403 then ReturnNull
            else Continue 1000))
   \<and> poll_decide (request_result NetFail) = Continue 2000
   \<and> (\<forall>status text. \<not> response_ok status \<longrightarrow>
         poll_decide (request_result (Response status text)) = Continue 2000)
   \<and> (\<forall>e. poll_decide (Inl e) = Continue 2000)
   \<and> (\<forall>v. (\<forall>s. v \<noteq> JStr s) \<longrightarrow> poll_decide (Inr v) = Continue 2000)
   \<and> (\<forall>text. poll_decide (Inr (JStr text)) =
         (if map_option digits_val (match_errcode text) = Some 405 \<and> match_code text \<noteq> None
            then ReturnCode (the (match_code text))
          else if map_option digits_val (match_errcode text) = Some 403 then ReturnNull
          else Continue 1000))"
  using pollWxCode_trace [of uuid w] poll_decide_cases poll_decide_status_body
  by (simp add: pollWxCode_def request_result_def)

text \<open>
  Two runs: a waiting reply, a transport failure, a reply with an unknown status and
  then the scan with code \<open>abc\<close> give \<open>abc\<close> after four requests; an endpoint that
  never answers gives \<open>null\<close> after 300 requests.
\<close>

theorem pollWxCode_terminates_witness:
  "(\<exists>w'. pollWxCode (js ''uuid1'')
            (fresh_world (script [Response 200 (status_body 404 []), NetFail,
                                  Response 200 (status_body 402 []),
                                  Response 200 (status_body 405 (js ''abc''))]))
          = (Inr (Some (js ''abc'')), w')
        \<and> length (requests w') = 4)
   \<and> (\<exists>w'. pollWxCode (js ''uuid1'') (fresh_world (script [])) = (Inr None, w')
          \<and> length (requests w') = 300)"
proof -
  let ?w = "fresh_world (script [Response 200 (status_body 404 []), NetFail,
                                  Response 200 (status_body 402 []),
                                  Response 200 (status_body 405 (js ''abc''))])"
  let ?n = "fresh_world (script [])"
  have u: "js ''uuid1'' \<noteq> []" by (simp add: js_def)
  note t = pollWxCode_terminates [of "js ''uuid1''" ?w]
  from t have wire: "\<And>n c. 0x27 \<notin> set c \<Longrightarrow>
      poll_decide (request_result (Response 200 (status_body n c)))
      = (if n = 405 \<and> c \<noteq> [] then ReturnCode c
         else if n = 403 then ReturnNull
         else Continue 1000)"
    and fail: "poll_decide (request_result NetFail) = Continue 2000"
    by blast+
  have q: "0x27 \<notin> set (js ''abc'')" "js ''abc'' \<noteq> []" by (simp_all add: js_def ch_def)
  have r: "poll_reply ?w 0 = Continue 1000" "poll_reply ?w 1 = Continue 2000"
    "poll_reply ?w 2 = Continue 1000" "poll_reply ?w 3 = ReturnCode (js ''abc'')"
    using q by (simp_all add: poll_reply_def requests_fresh_world script_def wire fail)
  from t u obtain k res w' where
    run: "pollWxCode (js ''uuid1'') ?w = (Inr res, w')"
    and rq: "requests w' = requests ?w @ replicate k (get_request (pollUrl (js ''uuid1'')))"
    and k: "1 \<le> k"
    and cont: "\<forall>i. Suc i < k \<longrightarrow> (\<exists>ms. poll_reply ?w i = Continue ms)"
    and last: "case poll_reply ?w (k - 1) of
       ReturnCode c \<Rightarrow> res = Some c
     | ReturnNull \<Rightarrow> res = None
     | Continue ms \<Rightarrow> res = None \<and> k = 300"
    by blast
  have "\<not> 4 < k"
  proof
    assume "4 < k"
    then have "Suc 3 < k" by simp
    with cont obtain ms where "poll_reply ?w 3 = Continue ms" by blast
    with r(4) show False by simp
  qed
  moreover have "k \<noteq> 1" "k \<noteq> 2" "k \<noteq> 3"
    using last r by auto
  ultimately have k4: "k = 4" using k by linarith
  with last r(4) have "res = Some (js ''abc'')" by simp
  with run rq k4 have a: "\<exists>w'. pollWxCode (js ''uuid1'') ?w = (Inr (Some (js ''abc'')), w')
      \<and> length (requests w') = 4"
    by (simp add: requests_fresh_world)
  have rn: "poll_reply ?n i = Continue 2000" for i
    by (simp add: poll_reply_def requests_fresh_world fail)
  from pollWxCode_terminates [of "js ''uuid1''" ?n] u
  obtain k' res' w'' where
    "pollWxCode (js ''uuid1'') ?n = (Inr res', w'')"
    "requests w'' = requests ?n @ replicate k' (get_request (pollUrl (js ''uuid1'')))"
    "case poll_reply ?n (k' - 1) of
       ReturnCode c \<Rightarrow> res' = Some c
     | ReturnNull \<Rightarrow> res' = None
     | Continue ms \<Rightarrow> res' = None \<and> k' = 300"
    by blast
  then have b: "\<exists>w'. pollWxCode (js ''uuid1'') ?n = (Inr None, w') \<and> length (requests w') = 300"
    by (simp add: rn requests_fresh_world)
  from a b show ?thesis by blast
qed

text \<open>
  Claim C4: when the first three polls decide to wait and the fourth sees the scan
  with code \<open>abc\<close>, \<open>pollWxCode\<close> returns \<open>abc\<close> after exactly four status
  requests; when the first poll sees the expired signal it returns \<open>null\<close> after
  exactly one.
\<close>

theorem pollWxCode_scenarios:
  assumes "uuid \<noteq> []"
  shows "((\<forall>i<3. \<exists>ms. poll_reply w i = Continue ms) \<and> poll_reply w 3 = ReturnCode (js ''abc'') \<longrightarrow>
          (\<exists>w'. pollWxCode uuid w = (Inr (Some (js ''abc'')), w')
                \<and> requests w' = requests w @ replicate 4 (get_request (pollUrl uuid))))
       \<and> (poll_reply w 0 = ReturnNull \<longrightarrow>
          (\<exists>w'. pollWxCode uuid w = (Inr None, w')
                \<and> requests w' = requests w @ replicate 1 (get_request (pollUrl uuid))))"
proof -
  from pollWxCode_trace [OF assms, of w] obtain k res w' where
    run: "pollWxCode uuid w = (Inr res, w')" and k: "1 \<le> k" "k \<le> 300"
    and rq: "requests w' = requests w @ replicate k (get_request (pollUrl uuid))"
    and cont: "\<forall>i. Suc i < k \<longrightarrow> (\<exists>ms. poll_reply w i = Continue ms)"
    and last: "case poll_reply w (k - 1) of
           ReturnCode c \<Rightarrow> res = Some c
         | ReturnNull \<Rightarrow> res = None
         | Continue ms \<Rightarrow> res = None \<and> k = 300"
    by blast
  have scanned: "k = 4 \<and> res = Some (js ''abc'')"
    if w: "\<forall>i<3. \<exists>ms. poll_reply w i = Continue ms" and s: "poll_reply w 3 = ReturnCode (js ''abc'')"
  proof -
    have "\<not> k < 4"
    proof
      assume lt: "k < 4"
      with k have "k - 1 < 3" by simp
      with w obtain ms where "poll_reply w (k - 1) = Continue ms" by blast
      with last lt show False by simp
    qed
    moreover have "\<not> 4 < k"
    proof
      assume "4 < k"
      then have "Suc 3 < k" by simp
      with cont obtain ms where "poll_reply w 3 = Continue ms" by blast
      with s show False by simp
    qed
    ultimately have "k = 4" by simp
    with last s show ?thesis by simp
  qed
  have expired: "k = 1 \<and> res = None" if e: "poll_reply w 0 = ReturnNull"
  proof -
    have "\<not> 1 < k"
    proof
      assume "1 < k"
      then have "Suc 0 < k" by simp
      with cont obtain ms where "poll_reply w 0 = Continue ms" by blast
      with e show False by simp
    qed
    with k have "k = 1" by simp
    with last e show ?thesis by simp
  qed
  from run rq scanned expired show ?thesis by auto
qed

theorem pollWxCode_scenarios_witness:
  "(\<exists>w'. pollWxCode (js ''uuid1'')
            (fresh_world (script [Response 200 (status_body 404 []), Response 200 (status_body 404 []),
                                  Response 200 (status_body 404 []),
                                  Response 200 (status_body 405 (js ''abc''))]))
          = (Inr (Some (js ''abc'')), w')
        \<and> length (requests w') = 4)
   \<and> (\<exists>w'. pollWxCode (js ''uuid1'') (fresh_world (script [Response 200 (status_body 403 [])]))
          = (Inr None, w')
        \<and> length (requests w') = 1)"
proof -
  let ?w = "fresh_world (script [Response 200 (status_body 404 []), Response 200 (status_body 404 []),
                                  Response 200 (status_body 404 []),
                                  Response 200 (status_body 405 (js ''abc''))])"
  let ?e = "fresh_world (script [Response 200 (status_body 403 [])])"
  have u: "js ''uuid1'' \<noteq> []" by (simp add: js_def)
  have r: "poll_reply ?w 0 = Continue 1000" "poll_reply ?w 1 = Continue 1000"
    "poll_reply ?w 2 = Continue 1000" "poll_reply ?w 3 = ReturnCode (js ''abc'')"
    "poll_reply ?e 0 = ReturnNull"
    by (simp_all add: poll_reply_def fresh_world_def script_def poll_decide_status_body js_def ch_def)
  have w: "\<forall>i<3. \<exists>ms. poll_reply ?w i = Continue ms"
  proof (intro allI impI)
    fix i :: nat assume "i < 3"
    then consider "i = 0" | "i = 1" | "i = 2" by linarith
    then show "\<exists>ms. poll_reply ?w i = Continue ms" using r by cases auto
  qed
  from pollWxCode_scenarios [OF u, of ?w] w r(4)
  have a: "\<exists>w'. pollWxCode (js ''uuid1'') ?w = (Inr (Some (js ''abc'')), w') \<and> length (requests w') = 4"
    by (auto simp: requests_fresh_world)
  from pollWxCode_scenarios [OF u, of ?e] r(5)
  have b: "\<exists>w'. pollWxCode (js ''uuid1'') ?e = (Inr None, w') \<and> length (requests w') = 1"
    by (auto simp: requests_fresh_world)
  from a b show ?thesis by blast
qed

section \<open>The check-in payload\<close>















section \<open>The notifier\<close>







section \<open>Ensuring a credential\<close>

lemma JSON_parse_stringify_token:
  "\<bar>e\<bar> \<le> 9007199254740992 \<Longrightarrow>
   JSON_parse (stringify_token t e) = Some (JObj [(js ''token'', JStr t), (js ''expire'', JNum e 0)])"
  using JSON_parse_token_object [of plain_runtime "JStr t" "JNum e 0"]
  by (simp add: printed_literal_int flip: stringify_token_eq [of e plain_runtime t])


subsection \<open>The requests of a pass only grow\<close>

lemma requests_request: "request rq w = (r, w') \<Longrightarrow> requests w' = requests w @ [rq]"
  by (auto simp: request_def fetch_def)

lemma requests_fetchUUID:
  "fetchUUID w = (r, w') \<Longrightarrow> length (requests w') = Suc (length (requests w))"
  by (auto simp: fetchUUID_def split: prod.splits sum.splits json.splits option.splits
      dest!: requests_request)

lemma requests_fetchQRCodeBuffer:
  "fetchQRCodeBuffer uuid w = (r, w') \<Longrightarrow> length (requests w) \<le> length (requests w')"
  by (auto simp: fetchQRCodeBuffer_def fetch_def
      split: if_splits sum.splits prod.splits http_response.splits)

lemma requests_printAsciiQRCode:
  "printAsciiQRCode uuid w = (r, w') \<Longrightarrow> length (requests w) \<le> length (requests w')"
  by (auto simp: printAsciiQRCode_def fetch_def
      split: if_splits sum.splits prod.splits http_response.splits)

lemma requests_mail_attempt: "mail_attempt b k w = (r, w') \<Longrightarrow> requests w' = requests w"
  by (auto simp: mail_attempt_def sendMail_def split: if_splits sum.splits)

lemma requests_sendEmailWithQRCode:
  "sendEmailWithQRCode uuid buf w = (r, w') \<Longrightarrow> requests w' = requests w"
  by (auto simp: sendEmailWithQRCode_def split: if_splits prod.splits dest!: requests_mail_attempt)

lemma requests_pollWxCode:
  "pollWxCode uuid w = (r, w') \<Longrightarrow> length (requests w) \<le> length (requests w')"
  by (auto simp: pollWxCode_def split: if_splits prod.splits dest!: poll_loop_trace)

lemma requests_TokenInfo_fetchTokenByWxCode:
  "TokenInfo_fetchTokenByWxCode c w = (r, w') \<Longrightarrow> length (requests w) \<le> length (requests w')"
  by (auto simp: TokenInfo_fetchTokenByWxCode_def fetchTokenByWxCode_def Let_def
      split: if_splits prod.splits sum.splits dest!: requests_request)

lemma requests_save_w: "save_w ti w = (r, w') \<Longrightarrow> requests w' = requests w"
  by (auto simp: save_w_def split: prod.splits)

lemma requests_sleep: "requests (sleep ms w) = requests w"
  by (simp add: sleep_def)

lemma login_step_requests:
  assumes "login_step w = (s, w')"
  shows "length (requests w) < length (requests w')"
proof -
  obtain r1 w1 where 1: "fetchUUID w = (r1, w1)" by (cases "fetchUUID w")
  note l1 = requests_fetchUUID [OF 1]
  show ?thesis
  proof (cases r1)
    case (Inl e)
    with assms 1 l1 show ?thesis by (auto simp: login_step_def requests_sleep)
  next
    case (Inr uuid)
    obtain qr w2 where 2: "fetchQRCodeBuffer uuid w1 = (qr, w2)" by (cases "fetchQRCodeBuffer uuid w1")
    obtain shown w3 where 3: "printAsciiQRCode uuid w2 = (shown, w3)" by (cases "printAsciiQRCode uuid w2")
    obtain mailed w4 where 4:
      "sendEmailWithQRCode uuid (Some (case qr of Inl e \<Rightarrow> [] | Inr qrBuffer \<Rightarrow> qrBuffer)) w3
       = (mailed, w4)"
      by (cases "sendEmailWithQRCode uuid (Some (case qr of Inl e \<Rightarrow> [] | Inr qrBuffer \<Rightarrow> qrBuffer)) w3")
    obtain pr w5 where 5: "pollWxCode uuid w4 = (pr, w5)" by (cases "pollWxCode uuid w4")
    from l1 requests_fetchQRCodeBuffer [OF 2] requests_printAsciiQRCode [OF 3]
      requests_sendEmailWithQRCode [OF 4] requests_pollWxCode [OF 5]
    have l5: "length (requests w) < length (requests w5)" by simp
    from assms 1 Inr 2 3 4 5 l5 show ?thesis
      by (auto simp: login_step_def requests_sleep split: sum.splits option.splits if_splits prod.splits
          dest!: requests_TokenInfo_fetchTokenByWxCode requests_save_w)
  qed
qed

subsection \<open>What a pass returns\<close>

lemma save_w_Inr:
  assumes "save_w ti w = (Inr u, w')"
  shows "truthy (engine w') (token ti) \<and> truthy (engine w') (expire ti)
         \<and> toISOString (engine w') (expire ti) = Inr ()
         \<and> entries (store w') token_key
             = Some (JSON_stringify (engine w')
                       (JObj [(js ''token'', token ti), (js ''expire'', expire ti)]),
                     clock w + DEFAULT_TTL * 1000)"
  using assms
  by (auto simp: save_w_def save_def save_body_def redis_set_def
           simp del: JSON_stringify.simps
           split: prod.splits sum.splits if_splits)

lemma TokenInfo_fetchTokenByWxCode_Inr:
  "TokenInfo_fetchTokenByWxCode c w = (Inr ti, w') \<Longrightarrow> \<exists>s. token ti = JStr (js ''Bearer '' @ s)"
  by (auto simp: TokenInfo_fetchTokenByWxCode_def fetchTokenByWxCode_def Let_def
      split: if_splits prod.splits sum.splits)

lemma login_step_Done:
  assumes "login_step w = (Done (Inr ti), w')"
  shows "truthy (engine w') (token ti) \<and> truthy (engine w') (expire ti)
     \<and> toISOString (engine w') (expire ti) = Inr ()
     \<and> (\<exists>s. token ti = JStr (js ''Bearer '' @ s))
     \<and> (\<exists>d. entries (store w') token_key
             = Some (JSON_stringify (engine w')
                       (JObj [(js ''token'', token ti), (js ''expire'', expire ti)]), d))"
  using assms
  by (auto simp: login_step_def simp del: JSON_stringify.simps
      split: sum.splits option.splits if_splits prod.splits
      dest!: save_w_Inr TokenInfo_fetchTokenByWxCode_Inr)

lemma login_loop_Some:
  assumes "login_loop w = Some res"
  shows "\<forall>ti w'. res = (Inr ti, w') \<longrightarrow>
           length (requests w) < length (requests w')
     \<and> truthy (engine w') (token ti) \<and> truthy (engine w') (expire ti)
     \<and> toISOString (engine w') (expire ti) = Inr ()
     \<and> (\<exists>s. token ti = JStr (js ''Bearer '' @ s))
     \<and> (\<exists>d. entries (store w') token_key
             = Some (JSON_stringify (engine w')
                       (JObj [(js ''token'', token ti), (js ''expire'', expire ti)]), d))"
proof (induction rule: login_loop.raw_induct [OF _ assms])
  case (1 loop w res)
  obtain s w1 where s: "login_step w = (s, w1)" by (cases "login_step w")
  note grow = login_step_requests [OF s]
  show ?case
  proof (cases s)
    case (Done r)
    with 1(2) s have res: "res = (r, w1)" by simp
    show ?thesis
    proof (intro allI impI)
      fix ti w' assume "res = (Inr ti, w')"
      with res have "r = Inr ti" "w1 = w'" by simp_all
      with s Done grow login_step_Done [of w ti w']
      show "length (requests w) < length (requests w')
     \<and> truthy (engine w') (token ti) \<and> truthy (engine w') (expire ti)
     \<and> toISOString (engine w') (expire ti) = Inr ()
     \<and> (\<exists>s. token ti = JStr (js ''Bearer '' @ s))
     \<and> (\<exists>d. entries (store w') token_key
             = Some (JSON_stringify (engine w')
                       (JObj [(js ''token'', token ti), (js ''expire'', expire ti)]), d))"
        by simp
    qed
  next
    case Retry
    with 1(2) s have "loop w1 = Some res" by simp
    from 1(1) [OF this] grow show ?thesis by auto
  qed
qed

lemma login_loop_Inr:
  assumes "login_loop w = Some (Inr ti, w')"
  shows "length (requests w) < length (requests w')
     \<and> truthy (engine w') (token ti) \<and> truthy (engine w') (expire ti)
     \<and> toISOString (engine w') (expire ti) = Inr ()
     \<and> (\<exists>s. token ti = JStr (js ''Bearer '' @ s))
     \<and> (\<exists>d. entries (store w') token_key
             = Some (JSON_stringify (engine w')
                       (JObj [(js ''token'', token ti), (js ''expire'', expire ti)]), d))"
  using login_loop_Some [OF assms] by simp

lemma isValid_truthy:
  "isValid rt ti now = Inr True \<Longrightarrow>
   truthy rt (token ti) \<and> truthy rt (expire ti) \<and> toISOString rt (expire ti) = Inr ()"
  by (auto simp: isValid_def split: if_splits sum.splits)

lemma fromRedis_w_frame:
  "fromRedis_w w = (r, w1) \<Longrightarrow>
   clock w1 = clock w \<and> requests w1 = requests w \<and> engine w1 = engine w"
  by (auto simp: fromRedis_w_def split: prod.splits)

subsection \<open>A login that succeeds on the first pass\<close>

lemma strip_prefix_append: "strip_prefix p (p @ r) = Some r"
  by (induction p) simp_all

lemma match_uuid_html:
  assumes "u \<noteq> []" and "list_all is_uuid_char u"
  shows "match_uuid (js ''uuid='' @ u) = Some u"
proof -
  have "js ''uuid='' @ u = 0x75 # (js ''uid='' @ u)" by (simp add: js_def ch_def)
  moreover have tw: "takeWhile is_uuid_char u = u"
    using assms(2) by (simp add: list_all_iff)
  moreover have "strip_prefix (js ''uuid='') (0x75 # (js ''uid='' @ u)) = Some u"
    using strip_prefix_append [of "js ''uuid=''" u] calculation(1) by simp
  ultimately show ?thesis
    using assms(1) by (simp add: tw)
qed

lemma fetchUUID_html:
  assumes "answers w (length (requests w)) = Response 200 (js ''uuid='' @ u)"
    and "u \<noteq> []" and "list_all is_uuid_char u"
  shows "\<exists>rq. fetchUUID w = (Inr u, w\<lparr>requests := requests w @ [rq]\<rparr>)"
proof -
  have "js ''uuid='' @ u = 0x75 # (js ''uid='' @ u)" by (simp add: js_def ch_def)
  then have "JSON_parse (js ''uuid='' @ u) = None"
    by (simp only:) (rule JSON_parse_not_json; simp add: is_json_ws_def is_digit_def)
  with assms match_uuid_html [OF assms(2,3)] show ?thesis
    by (auto simp: fetchUUID_def request_def fetch_def request_result_def response_ok_def)
qed

lemma fetchQRCodeBuffer_NetFail:
  assumes "answers w (length (requests w)) = NetFail"
  shows "\<exists>e. fetchQRCodeBuffer u w = (Inl e, w) \<or>
             (\<exists>rq. fetchQRCodeBuffer u w = (Inl e, w\<lparr>requests := requests w @ [rq]\<rparr>) \<and> validateUUID u = Inr ())"
  using assms
  by (cases "validateUUID u") (auto simp: fetchQRCodeBuffer_def fetch_def)

lemma is_uuid_char_not_space: "is_uuid_char c \<Longrightarrow> \<not> is_js_space c"
  by (auto simp: is_uuid_char_def is_js_space_def ch_def word_le_nat_alt)

lemma trim_uuid: "list_all is_uuid_char u \<Longrightarrow> trim u = u"
proof (cases u rule: rev_cases)
  case Nil
  then show ?thesis by (simp add: trim_def)
next
  case (snoc ys y)
  assume a: "list_all is_uuid_char u"
  then have y: "\<not> is_js_space y" using snoc by (simp add: is_uuid_char_not_space)
  have "dropWhile is_js_space u = u"
  proof (cases u)
    case Nil
    then show ?thesis by simp
  next
    case (Cons x xs)
    with a have "\<not> is_js_space x" by (simp add: is_uuid_char_not_space)
    with Cons show ?thesis by simp
  qed
  with y snoc show ?thesis by (simp add: trim_def)
qed

lemma validateUUID_ok: "u \<noteq> [] \<Longrightarrow> list_all is_uuid_char u \<Longrightarrow> validateUUID u = Inr ()"
  by (simp add: validateUUID_def trim_uuid)

lemma pollWxCode_first:
  assumes "u \<noteq> []" and "poll_reply w 0 = ReturnCode c"
  shows "pollWxCode u w = (Inr (Some c), w\<lparr>requests := requests w @ [get_request (pollUrl u)]\<rparr>)"
  using assms
  by (simp add: pollWxCode_def poll_loop.simps [of u 0 w] maxPolls_def request_poll poll_reply_def)

lemma login_first_pass:
  assumes a0: "answers w (length (requests w)) = Response 200 (js ''uuid='' @ u)"
    and u: "u \<noteq> []" "list_all is_uuid_char u"
    and a1: "answers w (length (requests w) + 1) = NetFail"
    and a2: "answers w (length (requests w) + 2) = NetFail"
    and mail: "\<not> EMAIL_ENABLED w"
    and a3: "answers w (length (requests w) + 3) = Response 200 (status_body 405 c)"
    and c: "c \<noteq> []" "0x27 \<notin> set c"
    and a4: "answers w (length (requests w) + 4) = Response 200 (token_response_body t e)"
    and te: "t \<noteq> []" "e \<noteq> 0" "\<bar>e\<bar> \<le> MAX_TIME"
    and st: "\<forall>op. \<not> faults (store w) op"
  shows "\<exists>w'. login_step w = (Done (Inr \<lparr>token = JStr (js ''Bearer '' @ t), expire = JNum e 0\<rparr>), w')
              \<and> clock w' = clock w"
proof -
  have a1': "answers w (Suc (length (requests w))) = NetFail"
    and a2': "answers w (Suc (Suc (length (requests w)))) = NetFail"
    and a3': "answers w (Suc (Suc (Suc (length (requests w))))) = Response 200 (status_body 405 c)"
    and a4': "answers w (Suc (Suc (Suc (Suc (length (requests w))))))
              = Response 200 (token_response_body t e)"
    using a1 a2 a3 a4 by (simp_all add: eval_nat_numeral)
  from te(3) have r: "\<bar>e\<bar> \<le> 9007199254740992" by (simp add: MAX_TIME_def)
  from fetchUUID_html [OF a0 u] obtain rq0 where
    f0: "fetchUUID w = (Inr u, w\<lparr>requests := requests w @ [rq0]\<rparr>)" by blast
  define w1 where "w1 = w\<lparr>requests := requests w @ [rq0]\<rparr>"
  define w2 where "w2 = w1\<lparr>requests := requests w1 @ [get_request (qrUrl u)]\<rparr>"
  define w3 where "w3 = w2\<lparr>requests := requests w2 @ [get_request (qrUrl u)]\<rparr>"
  define w4 where "w4 = w3\<lparr>requests := requests w3 @ [get_request (pollUrl u)]\<rparr>"
  define w5 where "w5 = w4\<lparr>requests := requests w4 @ [post_request (CHECKIN_AUTH c)]\<rparr>"
  have f1: "fetchQRCodeBuffer u w1 = (Inl (AppError ''QR_FETCH_ERROR''), w2)"
    using a1' u by (simp add: fetchQRCodeBuffer_def validateUUID_ok fetch_def w1_def w2_def)
  have f2: "printAsciiQRCode u w2 = (Inl (AppError ''QR_DISPLAY_ERROR''), w3)"
    using a2' u by (simp add: printAsciiQRCode_def validateUUID_ok fetch_def w1_def w2_def w3_def)
  have f3: "sendEmailWithQRCode u (Some []) w3 = (Inr (), w3)"
    using mail by (simp add: sendEmailWithQRCode_def w1_def w2_def w3_def)
  have "poll_reply w3 0 = ReturnCode c"
    using a3' c by (simp add: poll_reply_def poll_decide_status_body w1_def w2_def w3_def)
  from pollWxCode_first [OF u(1) this]
  have f4: "pollWxCode u w3 = (Inr (Some c), w4)" by (simp add: w4_def)
  have "answers w4 (length (requests w4)) = Response 200 (token_response_body t e)"
    using a4' by (simp add: w1_def w2_def w3_def w4_def)
  from fetchTokenByWxCode_token_response [OF c(1) te this]
  have f5: "TokenInfo_fetchTokenByWxCode c w4
            = (Inr \<lparr>token = JStr (js ''Bearer '' @ t), expire = JNum e 0\<rparr>, w5)"
    by (simp add: w5_def)
  have s5: "store w5 = store w" "clock w5 = clock w"
    by (simp_all add: w1_def w2_def w3_def w4_def w5_def)
  have b: "js ''Bearer '' @ t \<noteq> []" by (simp add: js_def)
  obtain w6 where f6: "save_w \<lparr>token = JStr (js ''Bearer '' @ t), expire = JNum e 0\<rparr> w5 = (Inr (), w6)"
    and c6: "clock w6 = clock w" and e6: "engine w6 = engine w5"
    using st te b s5 r
    by (simp add: save_w_def save_def save_body_def redis_set_def DEFAULT_TTL_def toISOString_int
        del: JSON_stringify.simps)
  from f0 f1 f2 f3 f4 f5 f6 c6 e6 c(1) te r show ?thesis
    by (simp add: login_step_def w1_def toISOString_int)
qed

subsection \<open>The credential returned\<close>

text \<open>
  Claim C5, as stated: every credential \<open>get_ensureLoggedIn\<close> returns satisfies
  \<open>isValid()\<close> at the moment of return, whatever the store and the identity
  provider answer. After a login the new credential is saved and returned without a
  look at the clock: when the provider's \<open>Expire\<close> lies in the past (here a
  timestamp in seconds, met by a clock in milliseconds), the credential returned is
  not valid.
\<close>

theorem get_ensureLoggedIn_expired_counterexample:
  "map_option fst (get_ensureLoggedIn
     ((fresh_world (script [Response 200 (js ''uuid=abc123''), NetFail, NetFail,
                            Response 200 (status_body 405 (js ''code1'')),
                            Response 200 (token_response_body (js ''tok'') 1700000000)]))
        \<lparr>clock := 1700000000000\<rparr>))
   = Some (Inr \<lparr>token = JStr (js ''Bearer tok''), expire = JNum 1700000000 0\<rparr>)
   \<and> map_option (clock \<circ> snd) (get_ensureLoggedIn
     ((fresh_world (script [Response 200 (js ''uuid=abc123''), NetFail, NetFail,
                            Response 200 (status_body 405 (js ''code1'')),
                            Response 200 (token_response_body (js ''tok'') 1700000000)]))
        \<lparr>clock := 1700000000000\<rparr>))
   = Some 1700000000000
   \<and> isValid plain_runtime \<lparr>token = JStr (js ''Bearer tok''), expire = JNum 1700000000 0\<rparr>
        1700000000000 = Inr False"
proof -
  let ?w = "(fresh_world (script [Response 200 (js ''uuid=abc123''), NetFail, NetFail,
                            Response 200 (status_body 405 (js ''code1'')),
                            Response 200 (token_response_body (js ''tok'') 1700000000)]))
        \<lparr>clock := 1700000000000\<rparr>"
  let ?ti = "\<lparr>token = JStr (js ''Bearer tok''), expire = JNum 1700000000 0\<rparr>"
  have f: "fromRedis_w ?w = (Inr empty_TokenInfo, ?w)"
    by (simp add: fromRedis_w_def fromRedis_def fromRedis_body_def redis_get_def fresh_world_def)
  have nv: "isValid rt empty_TokenInfo now = Inr False" for rt now
    by (simp add: isValid_def empty_TokenInfo_fields)
  have u: "js ''uuid=abc123'' = js ''uuid='' @ js ''abc123''" "js ''abc123'' \<noteq> []"
    "list_all is_uuid_char (js ''abc123'')" "js ''code1'' \<noteq> []" "0x27 \<notin> set (js ''code1'')"
    "js ''tok'' \<noteq> []" "js ''Bearer '' @ js ''tok'' = js ''Bearer tok''"
    by (simp_all add: js_def ch_def is_uuid_char_def)
  have "\<exists>w'. login_step ?w = (Done (Inr \<lparr>token = JStr (js ''Bearer '' @ js ''tok''),
                                             expire = JNum 1700000000 0\<rparr>), w')
             \<and> clock w' = clock ?w"
    by (rule login_first_pass [where u = "js ''abc123''" and c = "js ''code1''"])
       (simp_all add: fresh_world_def script_def u MAX_TIME_def)
  then obtain w' where s: "login_step ?w = (Done (Inr ?ti), w')" and c: "clock w' = 1700000000000"
    by (auto simp: u)
  from f nv s have "get_ensureLoggedIn ?w = Some (Inr ?ti, w')"
    by (simp add: get_ensureLoggedIn_def login_loop.simps [of ?w])
  moreover have "isValid plain_runtime ?ti 1700000000000 = Inr False"
    by (simp add: isValid_def js_def to_number_def toISOString_int now_toISOString_def MAX_TIME_def)
  ultimately show ?thesis using c by simp
qed

text \<open>
  Claim C5, amended. Whenever \<open>get_ensureLoggedIn\<close> returns a credential, its
  token and its expiry are truthy and its expiry is a date (no type is checked: the
  token need not be a string, nor the expiry a number). If no request went out (the
  credential was loaded from the store), it satisfies \<open>isValid()\<close> at the moment
  of return. Otherwise it is the credential of the finished login: its token is a
  string that begins with \<open>Bearer\<close>, it has just been written to the store, and
  its expiry has not been compared with the clock.
\<close>

theorem get_ensureLoggedIn_returns:
  assumes "get_ensureLoggedIn w = Some (Inr ti, w')"
  shows "truthy (engine w') (token ti) \<and> truthy (engine w') (expire ti)
         \<and> toISOString (engine w') (expire ti) = Inr ()
         \<and> (requests w' = requests w \<longrightarrow> isValid (engine w') ti (clock w') = Inr True)
         \<and> (requests w' \<noteq> requests w \<longrightarrow>
              (\<exists>s. token ti = JStr (js ''Bearer '' @ s))
              \<and> (\<exists>d. entries (store w') token_key
                     = Some (JSON_stringify (engine w')
                               (JObj [(js ''token'', token ti), (js ''expire'', expire ti)]), d)))"
proof -
  obtain r w1 where f: "fromRedis_w w = (r, w1)" by (cases "fromRedis_w w")
  note frame = fromRedis_w_frame [OF f]
  show ?thesis
  proof (cases r)
    case (Inl e)
    with assms f show ?thesis by (simp add: get_ensureLoggedIn_def)
  next
    case (Inr tokenInfo)
    show ?thesis
    proof (cases "isValid (engine w1) tokenInfo (clock w1)")
      case (Inl e)
      with assms f Inr show ?thesis by (simp add: get_ensureLoggedIn_def)
    next
      case v: (Inr b)
      show ?thesis
      proof (cases b)
        case True
        with assms f Inr v have "ti = tokenInfo" "w' = w1" by (simp_all add: get_ensureLoggedIn_def)
        with True v frame isValid_truthy [of "engine w1" tokenInfo "clock w1"] show ?thesis
          by (auto simp del: JSON_stringify.simps)
      next
        case False
        with assms f Inr v have "login_loop w1 = Some (Inr ti, w')"
          by (simp add: get_ensureLoggedIn_def)
        from login_loop_Inr [OF this] frame show ?thesis
          by (auto simp del: JSON_stringify.simps)
      qed
    qed
  qed
qed

theorem get_ensureLoggedIn_returns_witness:
  "get_ensureLoggedIn
     ((fresh_world (script []))
        \<lparr>clock := 1000,
         store := \<lparr>entries = [token_key \<mapsto> (stringify_token (js ''Bearer x'') 2000, 5000)],
                   faults = no_faults\<rparr>\<rparr>)
   = Some (Inr \<lparr>token = JStr (js ''Bearer x''), expire = JNum 2000 0\<rparr>,
           (fresh_world (script []))
             \<lparr>clock := 1000,
              store := \<lparr>entries = [token_key \<mapsto> (stringify_token (js ''Bearer x'') 2000, 5000)],
                        faults = no_faults\<rparr>\<rparr>)
   \<and> isValid plain_runtime \<lparr>token = JStr (js ''Bearer x''), expire = JNum 2000 0\<rparr> 1000 = Inr True"
proof -
  let ?w = "(fresh_world (script []))
        \<lparr>clock := 1000,
         store := \<lparr>entries = [token_key \<mapsto> (stringify_token (js ''Bearer x'') 2000, 5000)],
                   faults = no_faults\<rparr>\<rparr>"
  let ?ti = "\<lparr>token = JStr (js ''Bearer x''), expire = JNum 2000 0\<rparr>"
  have b: "js ''Bearer x'' \<noteq> []" by (simp add: js_def)
  have v: "isValid rt ?ti 1000 = Inr True" for rt
    using b by (simp add: isValid_def to_number_def toISOString_int now_toISOString_def MAX_TIME_def)
  have p: "JSON_parse (stringify_token (js ''Bearer x'') 2000)
           = Some (JObj [(js ''token'', JStr (js ''Bearer x'')), (js ''expire'', JNum 2000 0)])"
    by (simp add: JSON_parse_stringify_token)
  have f: "fromRedis_w ?w = (Inr ?ti, ?w)"
    using p v
    by (simp add: fromRedis_w_def fromRedis_def fromRedis_body_def redis_get_def
        stringify_token_def token_keys token_keys(1) [symmetric] fresh_world_def
        new_TokenInfo_def or_null_def loaded_log_def toISOString_int MAX_TIME_def)
  from f v have run: "get_ensureLoggedIn ?w = Some (Inr ?ti, ?w)"
    by (simp add: get_ensureLoggedIn_def fresh_world_def)
  from get_ensureLoggedIn_returns [OF run] have "isValid (engine ?w) ?ti (clock ?w) = Inr True"
    by simp
  with run show ?thesis by (simp add: fresh_world_def)
qed

section \<open>The scheduler\<close>

text \<open>
  Claim C6: a \<open>startScheduler\<close> while a job is held changes nothing, so that two
  starts in a row construct and arm one job only; and after \<open>stopScheduler\<close> the
  status is not running, with no next check-in date, whatever the library would
  answer for the next date.
\<close>

theorem scheduler_start_twice_stop_status:
  "(checkinJob s \<noteq> None \<longrightarrow> startScheduler s = s)
   \<and> startScheduler (startScheduler s) = startScheduler s
   \<and> constructed (startScheduler (startScheduler initial_scheduler)) = 1
   \<and> armed (startScheduler (startScheduler initial_scheduler)) = 1
   \<and> checkinJob (stopScheduler s) = None
   \<and> getSchedulerStatus nd (stopScheduler s)
       = (\<lparr>isRunning = False, checkinJobStatus = False, nextCheckinDate = None\<rparr>, stopScheduler s)"
  by (cases "checkinJob s")
     (auto simp: startScheduler_def stopScheduler_def getSchedulerStatus_def initial_scheduler_def)

theorem scheduler_start_twice_stop_status_witness:
  "startScheduler (startScheduler initial_scheduler) = startScheduler initial_scheduler
   \<and> armed (startScheduler (startScheduler initial_scheduler)) = 1
   \<and> armed (stopScheduler (startScheduler initial_scheduler)) = 0
   \<and> fst (getSchedulerStatus (NextDate 1700000000000) (stopScheduler (startScheduler initial_scheduler)))
       = \<lparr>isRunning = False, checkinJobStatus = False, nextCheckinDate = None\<rparr>"
  using scheduler_start_twice_stop_status [of "startScheduler initial_scheduler" "NextDate 1700000000000"]
  by (simp add: startScheduler_def stopScheduler_def initial_scheduler_def)

end
